theory Spec2Isabelle
  imports Complex_Main "HOL-Library.Sublist"
begin

section \<open>The JSON-RPC netstring server of \<^verbatim>\<open>json_rpc.py\<close>\<close>

text \<open>
  The server reads netstrings \<^verbatim>\<open><len>:<payload>,\<close> from a UART, parses the payload as a
  JSON-RPC request, calls the registered handler and writes the response back as a
  netstring. The model below follows \<^verbatim>\<open>json_rpc.py\<close> function by function.

  \<^item> Python \<^verbatim>\<open>bytes\<close> and \<^verbatim>\<open>str\<close> are both \<open>char list\<close>; a character above 127
    stands for a non-ASCII code point, which the \<^verbatim>\<open>ascii\<close> codec rejects.
  \<^item> Exceptions are values of \<open>error\<close>; a function that can raise returns
    \<open>error + 'a\<close>, together with the state it leaves behind.
  \<^item> Wall-clock time is a rational number of seconds, as every float is. Between two
    calls into \<^verbatim>\<open>time\<close> the clock moves on by a lag that the environment decides, so
    \<^verbatim>\<open>time.sleep(d)\<close> is never shorter than \<open>d\<close> when the lag is not negative. The
    elapsed time is the difference of two readings of the clock, as in the source, never
    a sum of intervals; the difference of two floats within a factor of two of each
    other is exact, so no rounding stands between the readings and the comparison with
    the timeout.
  \<^item> The UART input is a queue of bytes, each with the time at which it arrives;
    \<^verbatim>\<open>read(n)\<close> hands out at most \<open>n\<close> of the bytes that have arrived, or \<^verbatim>\<open>None\<close>.
  \<^item> The two polling loops of \<^verbatim>\<open>receive_netstring\<close> need not return in the model
    (with a poll interval of zero and no lag the clock stands still), so they are
    partial functions into \<open>option\<close>: \<open>None\<close> is a loop that runs forever.
\<close>

subsection \<open>Exceptions\<close>

text \<open>
  The source raises plain \<^verbatim>\<open>Exception(message)\<close>; each message gets a constructor.
  \<open>TypeError\<close>, \<open>UnicodeError\<close>, \<open>ValueError\<close> and \<open>IndexError\<close> are raised by the
  interpreter itself; the text they carry is the interpreter's and is only abbreviated
  here. \<open>ParseError\<close> carries the text of the JSON parser's exception, \<open>HandlerError\<close>
  the message of an exception raised inside a handler.
\<close>

datatype error =
    TimedOut
  | FramingError
  | ParseError string
  | MethodNotSpecified
  | MethodNotString
  | InvalidParams
  | MethodMissing
  | MethodNotFound
  | HandlerError string
  | TypeError string
  | UnicodeError string
  | ValueError string
  | IndexError string


subsection \<open>Bytes, text and decimal numbers\<close>

type_synonym bytes = "char list"

definition is_ascii :: "char \<Rightarrow> bool" where
  "is_ascii c = ((of_char c :: nat) < 128)"

text \<open>\<^verbatim>\<open>b.decode('ascii')\<close> and \<^verbatim>\<open>s.encode('ascii')\<close>: both raise on a character above 127.\<close>

definition decode_ascii :: "bytes \<Rightarrow> error + string" where
  "decode_ascii b =
     (if list_all is_ascii b then Inr b
      else Inl (UnicodeError ''ascii codec can not decode byte: ordinal not in range(128)''))"


text \<open>
  \<^verbatim>\<open>str.isdigit()\<close>, on text that came out of the ASCII codec: true when the text is not
  empty and every character is one of \<^verbatim>\<open>0\<close> to \<^verbatim>\<open>9\<close>.
\<close>

definition isdigit_char :: "char \<Rightarrow> bool" where
  "isdigit_char c = (48 \<le> (of_char c :: nat) \<and> (of_char c :: nat) \<le> 57)"

definition isdigit :: "string \<Rightarrow> bool" where
  "isdigit s = (s \<noteq> [] \<and> list_all isdigit_char s)"

text \<open>\<^verbatim>\<open>int(s)\<close> on decimal digits (leading zeros allowed), \<^verbatim>\<open>ValueError\<close> otherwise.\<close>

definition digit_val :: "char \<Rightarrow> nat" where
  "digit_val c = of_char c - 48"

definition py_int :: "string \<Rightarrow> error + nat" where
  "py_int s =
     (if isdigit s then Inr (foldl (\<lambda>a c. 10 * a + digit_val c) 0 s)
      else Inl (ValueError ''invalid literal for int() with base 10''))"




subsection \<open>The server state and its environment\<close>

record TimeoutChecker =
  timeout_s :: rat
  interval_s :: rat
  last_updated_time :: rat
  start_time :: rat

text \<open>
  \<open>clock\<close> is the wall clock, \<open>uart_rx\<close> the bytes still to be read with their arrival
  times, \<open>uart_tx\<close> everything written so far, \<open>device\<close> whatever the handlers act on
  (the LED strip, for one).

  The wall clock does not stand still between two calls into \<^verbatim>\<open>time\<close>: reading the UART,
  decoding, printing and the scheduler all take time, and a sleep may last longer than
  asked. \<open>lag\<close> is that time, decided by the environment: \<open>lag n\<close> passes just before the
  \<open>n\<close>-th call of \<^verbatim>\<open>time.time()\<close> or \<^verbatim>\<open>time.sleep()\<close> takes effect, and \<open>ticks\<close> counts these
  calls. Nothing is assumed about \<open>lag\<close> here; the theorems say what they need of it.
\<close>

record 'd ESP32 =
  clock :: rat
  lag :: "nat \<Rightarrow> rat"
  ticks :: nat
  uart_rx :: "(rat \<times> char) list"
  uart_tx :: bytes
  timeout_checker :: TimeoutChecker
  device :: 'd

definition pass_time :: "'d ESP32 \<Rightarrow> 'd ESP32" where
  "pass_time s = s\<lparr>clock := clock s + lag s (ticks s), ticks := ticks s + 1\<rparr>"

text \<open>\<^verbatim>\<open>time.time()\<close>: the wall clock as it is when the call is made.\<close>

definition time_time :: "'d ESP32 \<Rightarrow> rat \<times> 'd ESP32" where
  "time_time s = (let s1 = pass_time s in (clock s1, s1))"

text \<open>
  \<^verbatim>\<open>time.sleep(d)\<close>: the clock moves on by \<open>d\<close>, after the lag before the call; what the
  sleep lasts longer is part of the lag before the next call. Python raises
  \<^verbatim>\<open>ValueError\<close> on a negative duration.
\<close>

definition sleep :: "rat \<Rightarrow> 'd ESP32 \<Rightarrow> (error + unit) \<times> 'd ESP32" where
  "sleep d s =
     (if d < 0 then (Inl (ValueError ''sleep length must be non-negative''), s)
      else (let s1 = pass_time s in (Inr (), s1\<lparr>clock := clock s1 + d\<rparr>)))"


text \<open>\<^verbatim>\<open>uart.read(n)\<close>: at most \<open>n\<close> of the bytes that have arrived, \<^verbatim>\<open>None\<close> when there is none.\<close>

definition uart_read :: "nat \<Rightarrow> 'd ESP32 \<Rightarrow> bytes option \<times> 'd ESP32" where
  "uart_read n s =
     (let got = take n (takeWhile (\<lambda>(t, b). t \<le> clock s) (uart_rx s))
      in if got = [] then (None, s)
         else (Some (map snd got), s\<lparr>uart_rx := drop (length got) (uart_rx s)\<rparr>))"


text \<open>
  \<^verbatim>\<open>ESP32.__init__\<close>: a timeout of five seconds, polled every fifth of a second; the
  constructor of \<^verbatim>\<open>TimeoutChecker\<close> reads the clock twice. \<open>now\<close> is the time at which the
  construction starts, \<open>lg\<close> the lag of the environment, \<open>rx\<close> what the UART will deliver,
  \<open>dev\<close> the device.
\<close>

definition ESP32_init :: "rat \<Rightarrow> (nat \<Rightarrow> rat) \<Rightarrow> (rat \<times> char) list \<Rightarrow> 'd \<Rightarrow> 'd ESP32" where
  "ESP32_init now lg rx dev =
     \<lparr>clock = now + lg 0 + lg 1, lag = lg, ticks = 2, uart_rx = rx, uart_tx = [],
      timeout_checker =
        \<lparr>timeout_s = 5, interval_s = 1 / 5, last_updated_time = now + lg 0,
         start_time = now + lg 0 + lg 1\<rparr>,
      device = dev\<rparr>"

subsection \<open>TimeoutChecker\<close>

text \<open>\<^verbatim>\<open>start_timer\<close> overrides the timeout only when the argument is truthy: not \<^verbatim>\<open>None\<close>, not \<open>0\<close>.\<close>

definition start_timer :: "rat option \<Rightarrow> 'd ESP32 \<Rightarrow> 'd ESP32" where
  "start_timer timeout s =
     (case time_time s of
        (now, s1) \<Rightarrow>
          (let tc = (timeout_checker s1)\<lparr>start_time := now\<rparr>
           in s1\<lparr>timeout_checker :=
                (case timeout of
                   None \<Rightarrow> tc
                 | Some t \<Rightarrow> if t \<noteq> 0 then tc\<lparr>timeout_s := t\<rparr> else tc)\<rparr>))"

definition expired :: "'d ESP32 \<Rightarrow> bool \<times> 'd ESP32" where
  "expired s =
     (case time_time s of
        (current_time, s1) \<Rightarrow>
          if current_time - start_time (timeout_checker s1) > timeout_s (timeout_checker s1)
          then (True, s1)
          else (False, s1))"

definition elapsed :: "'d ESP32 \<Rightarrow> rat \<times> 'd ESP32" where
  "elapsed s =
     (case time_time s of
        (current_time, s1) \<Rightarrow> (current_time - start_time (timeout_checker s1), s1))"

definition check_timeout :: "'d ESP32 \<Rightarrow> (error + unit) \<times> 'd ESP32" where
  "check_timeout s =
     (case expired s of
        (True, s1) \<Rightarrow> (Inl TimedOut, s1)
      | (False, s1) \<Rightarrow> sleep (interval_s (timeout_checker s1)) s1)"

subsection \<open>receive_netstring and send_netstring\<close>

text \<open>
  The first loop of \<^verbatim>\<open>receive_netstring\<close>: it returns the header text once a colon
  follows at least one digit, and starts again with an empty header on any other
  character.
\<close>

partial_function (option) header_loop ::
  "string \<Rightarrow> 'd ESP32 \<Rightarrow> ((error + string) \<times> 'd ESP32) option" where
  "header_loop header_str s =
     (case check_timeout s of
        (Inl e, s1) \<Rightarrow> Some (Inl e, s1)
      | (Inr u, s1) \<Rightarrow>
          (case uart_read 1 s1 of
             (None, s2) \<Rightarrow> header_loop header_str s2
           | (Some header_byte, s2) \<Rightarrow>
               (case decode_ascii header_byte of
                  Inl e \<Rightarrow> Some (Inl e, s2)
                | Inr header_char \<Rightarrow>
                    if isdigit header_char then header_loop (header_str @ header_char) s2
                    else if header_char = '':'' \<and> isdigit header_str
                    then Some (Inr header_str, s2)
                    else header_loop [] s2)))"

text \<open>The second loop: it reads until \<open>data_len + 1\<close> bytes are there.\<close>

partial_function (option) payload_loop ::
  "nat \<Rightarrow> bytes \<Rightarrow> 'd ESP32 \<Rightarrow> ((error + bytes) \<times> 'd ESP32) option" where
  "payload_loop data_len data s =
     (if length data < data_len + 1 then
        (case check_timeout s of
           (Inl e, s1) \<Rightarrow> Some (Inl e, s1)
         | (Inr u, s1) \<Rightarrow>
             (case uart_read (data_len + 1 - length data) s1 of
                (None, s2) \<Rightarrow> payload_loop data_len data s2
              | (Some r, s2) \<Rightarrow> payload_loop data_len (data @ r) s2))
      else Some (Inr data, s))"

declare header_loop.simps [code]
declare payload_loop.simps [code]

text \<open>
  What follows the second loop: \<^verbatim>\<open>data[-1]\<close> raises \<^verbatim>\<open>IndexError\<close> on empty data (the loop
  never leaves it empty), the trailing comma is checked and removed, the rest decoded.
\<close>

definition finish_netstring :: "bytes \<Rightarrow> error + string" where
  "finish_netstring data =
     (if data = [] then Inl (IndexError ''index out of range'')
      else if last data \<noteq> CHR '','' then Inl FramingError
      else decode_ascii (butlast data))"

definition receive_netstring ::
  "rat \<Rightarrow> 'd ESP32 \<Rightarrow> ((error + string) \<times> 'd ESP32) option" where
  "receive_netstring timeout s =
     (case header_loop [] (start_timer (Some timeout) s) of
        None \<Rightarrow> None
      | Some (Inl e, s1) \<Rightarrow> Some (Inl e, s1)
      | Some (Inr header_str, s1) \<Rightarrow>
          (case py_int header_str of
             Inl e \<Rightarrow> Some (Inl e, s1)
           | Inr data_len \<Rightarrow>
               (case payload_loop data_len [] s1 of
                  None \<Rightarrow> None
                | Some (Inl e, s2) \<Rightarrow> Some (Inl e, s2)
                | Some (Inr data, s2) \<Rightarrow> Some (finish_netstring data, s2))))"

text \<open>
  The header loop on bytes that are all there, without the clock: \<open>None\<close> when the bytes
  run out before a header is complete, otherwise the decoding error that ends the loop
  or the header and the bytes after its colon.
\<close>

fun header_scan :: "string \<Rightarrow> bytes \<Rightarrow> (error + string \<times> bytes) option" where
  "header_scan header_str [] = None"
| "header_scan header_str (b # bs) =
     (case decode_ascii [b] of
        Inl e \<Rightarrow> Some (Inl e)
      | Inr header_char \<Rightarrow>
          if isdigit header_char then header_scan (header_str @ header_char) bs
          else if header_char = '':'' \<and> isdigit header_str then Some (Inr (header_str, bs))
          else header_scan [] bs)"

text \<open>
  A sequence of bytes that never completes a frame: read as \<^verbatim>\<open>receive_netstring\<close> reads
  them, the bytes run out before a header is complete, or fewer than \<open>data_len + 1\<close> bytes
  follow the header. (Bytes whose scan meets a byte above 127 are not of this kind: the
  decoding error ends the scan.)
\<close>

definition incomplete :: "bytes \<Rightarrow> bool" where
  "incomplete bs =
     (case header_scan [] bs of
        None \<Rightarrow> True
      | Some (Inl e) \<Rightarrow> False
      | Some (Inr (header_str, rest)) \<Rightarrow>
          (case py_int header_str of
             Inl e \<Rightarrow> False
           | Inr data_len \<Rightarrow> length rest < data_len + 1))"




subsection \<open>JSON values\<close>

text \<open>
  What \<^verbatim>\<open>json.loads\<close> returns and \<^verbatim>\<open>json.dumps\<close> takes. A dictionary is the list
  of its items in order; a Python dictionary has each key once. \<open>JNull\<close> is \<^verbatim>\<open>None\<close>.
  A float is given by its value; infinities and NaN are left out.
\<close>

datatype json =
    JNull
  | JBool bool
  | JInt int
  | JFloat rat
  | JStr string
  | JList "json list"
  | JDict "(string \<times> json) list"

text \<open>Python's truth test, as \<^verbatim>\<open>if id:\<close> and \<^verbatim>\<open>if not params:\<close> apply it.\<close>

fun truthy :: "json \<Rightarrow> bool" where
  "truthy JNull = False"
| "truthy (JBool b) = b"
| "truthy (JInt n) = (n \<noteq> 0)"
| "truthy (JFloat x) = (x \<noteq> 0)"
| "truthy (JStr s) = (s \<noteq> [])"
| "truthy (JList xs) = (xs \<noteq> [])"
| "truthy (JDict kvs) = (kvs \<noteq> [])"

text \<open>\<^verbatim>\<open>d.get(key, None)\<close>.\<close>

definition dict_get :: "(string \<times> json) list \<Rightarrow> string \<Rightarrow> json" where
  "dict_get d key = (case map_of d key of None \<Rightarrow> JNull | Some v \<Rightarrow> v)"

fun is_str :: "json \<Rightarrow> bool" where
  "is_str (JStr s) = True"
| "is_str v = False"

text \<open>\<^verbatim>\<open>isinstance(v, (list, dict, type(None)))\<close>.\<close>

fun is_list_dict_none :: "json \<Rightarrow> bool" where
  "is_list_dict_none (JList xs) = True"
| "is_list_dict_none (JDict kvs) = True"
| "is_list_dict_none JNull = True"
| "is_list_dict_none v = False"

subsection \<open>parse_request\<close>

text \<open>
  \<^verbatim>\<open>json.loads\<close> is the library's: \<open>loads\<close> stands for it, \<open>Inl\<close> being the text of the
  exception it raises. The source never checks that the parsed value is a dictionary:
  \<^verbatim>\<open>'method' not in v\<close> is a membership test on a list, a substring test on a string and a
  \<^verbatim>\<open>TypeError\<close> on anything else, and \<^verbatim>\<open>v['method']\<close> is a \<^verbatim>\<open>TypeError\<close> on a list or a string.
\<close>

definition parse_request ::
  "(string \<Rightarrow> string + json) \<Rightarrow> string \<Rightarrow> error + (string \<times> json) list" where
  "parse_request loads request =
     (case loads request of
        Inl e \<Rightarrow> Inl (ParseError e)
      | Inr request_dict \<Rightarrow>
          (case request_dict of
             JDict d \<Rightarrow>
               (case map_of d ''method'' of
                  None \<Rightarrow> Inl MethodNotSpecified
                | Some method \<Rightarrow>
                    if \<not> is_str method then Inl MethodNotString
                    else (case map_of d ''params'' of
                            None \<Rightarrow> Inr d
                          | Some params \<Rightarrow>
                              if \<not> is_list_dict_none params then Inl InvalidParams
                              else Inr d))
           | JList xs \<Rightarrow>
               if JStr ''method'' \<notin> set xs then Inl MethodNotSpecified
               else Inl (TypeError ''list indices must be integers or slices, not str'')
           | JStr t \<Rightarrow>
               if \<not> sublist ''method'' t then Inl MethodNotSpecified
               else Inl (TypeError ''string indices must be integers'')
           | _ \<Rightarrow> Inl (TypeError ''argument is not iterable'')))"

subsection \<open>handle_request\<close>

text \<open>
  A handler is called with keyword arguments, \<^verbatim>\<open>f(**params)\<close>: it gets the items of the
  \<^verbatim>\<open>params\<close> dictionary and the device, and returns a result or raises (\<open>Inl\<close> with the
  message), leaving the device as it then is. The table \<^verbatim>\<open>self.methods\<close> is not set
  anywhere in \<^verbatim>\<open>json_rpc.py\<close>; it is the parameter \<open>methods\<close>.

  A list or a dictionary as \<^verbatim>\<open>method\<close> cannot be looked up (it is unhashable); any other
  value that is not a string is simply not a key. \<^verbatim>\<open>**params\<close> on anything but a
  dictionary is a \<^verbatim>\<open>TypeError\<close>, raised before the handler runs.
\<close>

type_synonym 'd handler = "(string \<times> json) list \<Rightarrow> 'd \<Rightarrow> (string + json) \<times> 'd"

definition handle_request ::
  "(string \<rightharpoonup> 'd handler) \<Rightarrow> (string \<times> json) list \<Rightarrow> 'd \<Rightarrow> (error + json) \<times> 'd" where
  "handle_request methods request dev =
     (let method = dict_get request ''method'';
          params0 = dict_get request ''params'';
          params = (if \<not> truthy params0 then JDict [] else params0)
      in if \<not> truthy method then (Inl MethodMissing, dev)
         else (case method of
                 JStr m \<Rightarrow>
                   (case methods m of
                      None \<Rightarrow> (Inl MethodNotFound, dev)
                    | Some f \<Rightarrow>
                        (case params of
                           JDict kwargs \<Rightarrow>
                             (case f kwargs dev of
                                (Inl msg, dev') \<Rightarrow> (Inl (HandlerError msg), dev')
                              | (Inr result, dev') \<Rightarrow> (Inr result, dev'))
                         | _ \<Rightarrow> (Inl (TypeError ''argument after ** must be a mapping''), dev)))
               | JList xs \<Rightarrow> (Inl (TypeError ''unhashable type: list''), dev)
               | JDict d \<Rightarrow> (Inl (TypeError ''unhashable type: dict''), dev)
               | _ \<Rightarrow> (Inl MethodNotFound, dev)))"

subsection \<open>create_response and create_error_response\<close>

text \<open>
  \<^verbatim>\<open>json.dumps\<close> is the library's: \<open>dumps\<close> stands for it. The argument \<^verbatim>\<open>id\<close> of the
  source is \<open>ident\<close> here.
\<close>

definition create_response :: "(json \<Rightarrow> string) \<Rightarrow> json \<Rightarrow> json \<Rightarrow> string" where
  "create_response dumps response ident =
     (if truthy ident then dumps (JDict [(''id'', ident), (''result'', response)])
      else dumps (JDict [(''id'', JInt 0), (''result'', response)]))"

definition create_error_response :: "(json \<Rightarrow> string) \<Rightarrow> string \<Rightarrow> json \<Rightarrow> string" where
  "create_error_response dumps error_msg ident =
     (if truthy ident
      then dumps (JDict [(''id'', ident),
             (''error'', JDict [(''message'', JStr error_msg), (''code'', JInt (- 1))])])
      else dumps (JDict [(''id'', JInt 0),
             (''error'', JDict [(''message'', JStr error_msg), (''code'', JInt (- 1))])]))"

subsection \<open>The server loop\<close>








subsection \<open>Example data\<close>

text \<open>
  Modelled from the spec: the method table and its handler \<^verbatim>\<open>set_led_color(rgb)\<close> are not in
  \<^verbatim>\<open>json_rpc.py\<close>. By section 8 and the test \<^verbatim>\<open>test_set_led_valid\<close> the handler sets the
  first LED to \<^verbatim>\<open>rgb\<close> and returns \<^verbatim>\<open>{"status": true}\<close>. The device is the colour of that
  LED. Any other set of keyword arguments is the \<^verbatim>\<open>TypeError\<close> of the call.
\<close>

definition set_led_color :: "json handler" where
  "set_led_color kwargs np =
     (case kwargs of
        [(k, rgb)] \<Rightarrow>
          if k = ''rgb'' then (Inr (JDict [(''status'', JBool True)]), rgb)
          else (Inl ''set_led_color() got an unexpected keyword argument'', np)
      | _ \<Rightarrow> (Inl ''set_led_color() missing or unexpected arguments'', np))"

definition methods_example :: "string \<rightharpoonup> json handler" where
  "methods_example = [''set_led_color'' \<mapsto> set_led_color]"

text \<open>
  A handler without arguments for the examples, which returns the colour of the LED, and
  a method table that registers it under the empty name.
\<close>

definition get_led_color :: "json handler" where
  "get_led_color kwargs np = (Inr np, np)"

definition methods_unnamed :: "string \<rightharpoonup> json handler" where
  "methods_unnamed = [[] \<mapsto> get_led_color]"

text \<open>The request texts of the examples, and what \<^verbatim>\<open>json.loads\<close> makes of them.\<close>

definition set_led_text :: string where
  \<open>set_led_text = ''{"method":"set_led_color","id":0,"params":{"rgb":[255,0,0]}}''\<close>

definition set_led_request :: "(string \<times> json) list" where
  "set_led_request =
     [(''method'', JStr ''set_led_color''), (''id'', JInt 0),
      (''params'', JDict [(''rgb'', JList [JInt 255, JInt 0, JInt 0])])]"

definition power_status_text :: string where
  \<open>power_status_text = ''{"method":"Get_Power_Status","id":7,"params":{}}''\<close>

definition power_status_request :: "(string \<times> json) list" where
  "power_status_request =
     [(''method'', JStr ''Get_Power_Status''), (''id'', JInt 7), (''params'', JDict [])]"

definition empty_method_text :: string where
  \<open>empty_method_text = ''{"method":""}''\<close>

definition list_params_text :: string where
  \<open>list_params_text = ''{"method":"set_led_color","params":[255,0,0]}''\<close>

definition list_params_request :: "(string \<times> json) list" where
  "list_params_request =
     [(''method'', JStr ''set_led_color''), (''params'', JList [JInt 255, JInt 0, JInt 0])]"

definition missing_method_text :: string where
  \<open>missing_method_text = ''{"id":0,"params":{"rgb":[255,0,0]}}''\<close>

definition bad_json_text :: string where
  \<open>bad_json_text = ''{"method": "test", "params": "a": 1, "b": 2}''\<close>

definition loads_example :: "string \<Rightarrow> string + json" where
  \<open>loads_example text =
     (case map_of
        [(set_led_text, JDict set_led_request),
         (power_status_text, JDict power_status_request),
         (empty_method_text, JDict [(''method'', JStr [])]),
         (list_params_text, JDict list_params_request),
         (missing_method_text,
            JDict [(''id'', JInt 0), (''params'', JDict [(''rgb'', JList [JInt 255, JInt 0, JInt 0])])]),
         (''5'', JInt 5)] text of
        Some v \<Rightarrow> Inr v
      | None \<Rightarrow> Inl ''JSONDecodeError("Expecting value")'')\<close>

text \<open>The responses of the examples, and what \<^verbatim>\<open>json.dumps\<close> makes of them.\<close>

definition not_found_envelope :: json where
  "not_found_envelope =
     JDict [(''id'', JInt 7),
       (''error'', JDict [(''message'', JStr ''Invalid JSONRPC request: method is not found!''),
                          (''code'', JInt (- 1))])]"

definition status_envelope :: json where
  "status_envelope = JDict [(''id'', JInt 0), (''result'', JDict [(''status'', JBool True)])]"

definition dumps_example :: "json \<Rightarrow> string" where
  \<open>dumps_example v =
     (if v = status_envelope then ''{"id": 0, "result": {"status": true}}''
      else if v = not_found_envelope
      then ''{"id": 7, "error": {"message": "Invalid JSONRPC request: method is not found!", "code": -1}}''
      else ''null'')\<close>

section \<open>Properties\<close>

lemma pass_time_fields [simp]:
  "clock (pass_time s) = clock s + lag s (ticks s)" "ticks (pass_time s) = ticks s + 1"
  "lag (pass_time s) = lag s" "uart_rx (pass_time s) = uart_rx s"
  "uart_tx (pass_time s) = uart_tx s" "timeout_checker (pass_time s) = timeout_checker s"
  "device (pass_time s) = device s"
  by (simp_all add: pass_time_def)

lemma start_timer_fields:
  "uart_rx (start_timer t s) = uart_rx s" "clock (start_timer t s) = clock s + lag s (ticks s)"
  "lag (start_timer t s) = lag s" "ticks (start_timer t s) = ticks s + 1"
  "interval_s (timeout_checker (start_timer t s)) = interval_s (timeout_checker s)"
  "start_time (timeout_checker (start_timer t s)) = clock s + lag s (ticks s)"
  "device (start_timer t s) = device s" "uart_tx (start_timer t s) = uart_tx s"
  by (simp_all add: start_timer_def time_time_def Let_def split: option.splits)


text \<open>What a passed check leaves behind.\<close>

lemma check_timeout_Inr:
  assumes "check_timeout s = (Inr u, s1)"
  shows "uart_rx s1 = uart_rx s" "lag s1 = lag s" "timeout_checker s1 = timeout_checker s"
    "device s1 = device s" "uart_tx s1 = uart_tx s" "ticks s1 = ticks s + 2"
    "0 \<le> interval_s (timeout_checker s)"
    "clock s1 = clock s + lag s (ticks s) + lag s (ticks s + 1) + interval_s (timeout_checker s)"
    "clock s + lag s (ticks s) - start_time (timeout_checker s) \<le> timeout_s (timeout_checker s)"
  using assms
  by (auto simp: check_timeout_def expired_def time_time_def sleep_def Let_def split: if_splits)

lemma check_timeout_Inl:
  assumes "check_timeout s = (Inl e, s1)"
  shows "uart_rx s1 = uart_rx s" "lag s1 = lag s" "timeout_checker s1 = timeout_checker s"
    "device s1 = device s" "uart_tx s1 = uart_tx s"
    "clock s1 = clock s + lag s (ticks s)"
    "(e = TimedOut \<and> timeout_s (timeout_checker s) < clock s1 - start_time (timeout_checker s))
       \<or> interval_s (timeout_checker s) < 0"
  using assms
  by (auto simp: check_timeout_def expired_def time_time_def sleep_def Let_def split: if_splits)


lemma uart_read_None: "uart_read n s = (None, s2) \<Longrightarrow> s2 = s"
  by (auto simp: uart_read_def Let_def split: if_splits)

lemma uart_read_Some:
  "uart_read n s = (Some r, s2) \<Longrightarrow>
     r \<noteq> [] \<and> length r \<le> n \<and> length r \<le> length (uart_rx s)
     \<and> r = map snd (take (length r) (uart_rx s))
     \<and> s2 = s\<lparr>uart_rx := drop (length r) (uart_rx s)\<rparr>"
proof -
  assume a: "uart_read n s = (Some r, s2)"
  define got where "got = take n (takeWhile (\<lambda>(t, b). t \<le> clock s) (uart_rx s))"
  have p: "prefix got (uart_rx s)"
    unfolding got_def
    by (metis append_take_drop_id prefixI prefix_order.trans takeWhile_dropWhile_id)
  from a have r: "got \<noteq> []" "r = map snd got" "s2 = s\<lparr>uart_rx := drop (length got) (uart_rx s)\<rparr>"
    by (auto simp: uart_read_def Let_def got_def split: if_splits)
  have "length got \<le> n" by (simp add: got_def)
  moreover have "got = take (length got) (uart_rx s)"
    using p by (metis append_eq_conv_conj prefixE)
  moreover have "length got \<le> length (uart_rx s)"
    using p by (simp add: prefix_length_le)
  ultimately show ?thesis using r by auto
qed

lemma uart_read_1:
  assumes "uart_read 1 s = (Some r, s2)"
  obtains t c rest where "uart_rx s = (t, c) # rest" "r = [c]" "s2 = s\<lparr>uart_rx := rest\<rparr>"
proof -
  from uart_read_Some [OF assms] have r: "r \<noteq> []" "length r \<le> 1"
    "r = map snd (take (length r) (uart_rx s))" "s2 = s\<lparr>uart_rx := drop (length r) (uart_rx s)\<rparr>"
    "length r \<le> length (uart_rx s)"
    by blast+
  from r(1,2) have l: "length r = 1" by (cases r) auto
  with r(5) obtain x rest where rx: "uart_rx s = x # rest" by (cases "uart_rx s") auto
  obtain t c where x: "x = (t, c)" by (cases x)
  show ?thesis
    using r(3,4) l rx x by (intro that [of t c rest]) auto
qed

text \<open>One iteration of each loop, by what the check and the read give.\<close>

lemma header_body_cases:
  assumes "(case check_timeout s of
        (Inl e, s1) \<Rightarrow> Some (Inl e, s1)
      | (Inr u, s1) \<Rightarrow>
          (case uart_read 1 s1 of
             (None, s2) \<Rightarrow> loop h s2
           | (Some header_byte, s2) \<Rightarrow>
               (case decode_ascii header_byte of
                  Inl e \<Rightarrow> Some (Inl e, s2)
                | Inr header_char \<Rightarrow>
                    if isdigit header_char then loop (h @ header_char) s2
                    else if header_char = '':'' \<and> isdigit h
                    then Some (Inr h, s2)
                    else loop [] s2))) = Some y"
  obtains (stop) e s1 where "check_timeout s = (Inl e, s1)" "y = (Inl e, s1)"
  | (idle) s1 where "check_timeout s = (Inr (), s1)" "loop h s1 = Some y"
  | (nonascii) s1 t c rest m where "check_timeout s = (Inr (), s1)"
      "uart_rx s = (t, c) # rest" "\<not> is_ascii c"
      "y = (Inl (UnicodeError m), s1\<lparr>uart_rx := rest\<rparr>)"
  | (digit) s1 t c rest where "check_timeout s = (Inr (), s1)"
      "uart_rx s = (t, c) # rest" "isdigit_char c"
      "loop (h @ [c]) (s1\<lparr>uart_rx := rest\<rparr>) = Some y"
  | (colon) s1 t rest where "check_timeout s = (Inr (), s1)"
      "uart_rx s = (t, CHR '':'') # rest" "isdigit h"
      "y = (Inr h, s1\<lparr>uart_rx := rest\<rparr>)"
  | (flush) s1 t c rest where "check_timeout s = (Inr (), s1)"
      "uart_rx s = (t, c) # rest" "is_ascii c" "\<not> isdigit_char c"
      "\<not> (c = CHR '':'' \<and> isdigit h)"
      "loop [] (s1\<lparr>uart_rx := rest\<rparr>) = Some y"
proof -
  obtain r s1 where ct: "check_timeout s = (r, s1)" by (cases "check_timeout s")
  show ?thesis
  proof (cases r)
    case (Inl e)
    with ct assms show ?thesis by (intro stop [of e s1]) auto
  next
    case (Inr u)
    with ct have ct': "check_timeout s = (Inr (), s1)" by simp
    have rxs: "uart_rx s1 = uart_rx s" by (rule check_timeout_Inr(1) [OF ct'])
    obtain ro s2 where rd: "uart_read 1 s1 = (ro, s2)" by (cases "uart_read 1 s1")
    show ?thesis
    proof (cases ro)
      case None
      with rd have "s2 = s1" by (simp add: uart_read_None)
      with None rd ct' assms show ?thesis by (intro idle [of s1]) simp_all
    next
      case (Some hb)
      with rd obtain t c rest where rx: "uart_rx s1 = (t, c) # rest" "hb = [c]"
        "s2 = s1\<lparr>uart_rx := rest\<rparr>"
        using uart_read_1 by blast
      have rx': "uart_rx s = (t, c) # rest" using rx(1) rxs by simp
      have body: "(case decode_ascii [c] of
                  Inl e \<Rightarrow> Some (Inl e, s2)
                | Inr header_char \<Rightarrow>
                    if isdigit header_char then loop (h @ header_char) s2
                    else if header_char = '':'' \<and> isdigit h
                    then Some (Inr h, s2)
                    else loop [] s2) = Some y"
        using assms ct' rd Some rx(2) by simp
      show ?thesis
      proof (cases "is_ascii c")
        case False
        with body rx(3) rx' ct' show ?thesis
          by (intro nonascii [of s1 t c rest]) (auto simp: decode_ascii_def)
      next
        case True
        then have dec: "decode_ascii [c] = Inr [c]" by (simp add: decode_ascii_def)
        have dg: "isdigit [c] = isdigit_char c" by (simp add: isdigit_def)
        show ?thesis
        proof (cases "isdigit_char c")
          case True
          with body dec dg rx(3) rx' ct' show ?thesis by (intro digit [of s1 t c rest]) simp_all
        next
          case nd: False
          show ?thesis
          proof (cases "c = CHR '':'' \<and> isdigit h")
            case True
            with body dec dg nd rx(3) rx' ct' show ?thesis by (intro colon [of s1 t rest]) simp_all
          next
            case False
            with body dec dg nd rx(3) rx' ct' True show ?thesis
              by (intro flush [of s1 t c rest]) auto
          qed
        qed
      qed
    qed
  qed
qed

lemma payload_body_cases:
  assumes "(if length data < k + 1 then
        (case check_timeout s of
           (Inl e, s1) \<Rightarrow> Some (Inl e, s1)
         | (Inr u, s1) \<Rightarrow>
             (case uart_read (k + 1 - length data) s1 of
                (None, s2) \<Rightarrow> loop k data s2
              | (Some r, s2) \<Rightarrow> loop k (data @ r) s2))
      else Some (Inr data, s)) = Some y"
  obtains (full) "k + 1 \<le> length data" "y = (Inr data, s)"
  | (stop) e s1 where "length data < k + 1" "check_timeout s = (Inl e, s1)" "y = (Inl e, s1)"
  | (idle) s1 where "length data < k + 1" "check_timeout s = (Inr (), s1)"
      "loop k data s1 = Some y"
  | (more) s1 r where "length data < k + 1" "check_timeout s = (Inr (), s1)"
      "r \<noteq> []" "length r \<le> k + 1 - length data" "length r \<le> length (uart_rx s)"
      "r = map snd (take (length r) (uart_rx s))"
      "loop k (data @ r) (s1\<lparr>uart_rx := drop (length r) (uart_rx s)\<rparr>) = Some y"
proof (cases "length data < k + 1")
  case False
  with assms show ?thesis by (intro full) auto
next
  case True
  obtain r0 s1 where ct: "check_timeout s = (r0, s1)" by (cases "check_timeout s")
  show ?thesis
  proof (cases r0)
    case (Inl e)
    with ct assms True show ?thesis by (intro stop [of e s1]) auto
  next
    case (Inr u)
    with ct have ct': "check_timeout s = (Inr (), s1)" by simp
    have rxs: "uart_rx s1 = uart_rx s" by (rule check_timeout_Inr(1) [OF ct'])
    obtain ro s2 where rd: "uart_read (k + 1 - length data) s1 = (ro, s2)"
      by (cases "uart_read (k + 1 - length data) s1")
    show ?thesis
    proof (cases ro)
      case None
      with rd have "s2 = s1" by (simp add: uart_read_None)
      with None rd ct' assms True show ?thesis by (intro idle [of s1]) simp_all
    next
      case (Some r)
      with rd have r: "r \<noteq> []" "length r \<le> k + 1 - length data"
        "length r \<le> length (uart_rx s1)"
        "r = map snd (take (length r) (uart_rx s1))"
        "s2 = s1\<lparr>uart_rx := drop (length r) (uart_rx s1)\<rparr>"
        using uart_read_Some by blast+
      from Some rd ct' True assms have "loop k (data @ r) s2 = Some y" by simp
      with r rxs True ct' show ?thesis by (intro more [of s1 r]) simp_all
    qed
  qed
qed

text \<open>Both loops return when the poll interval is positive and time does not run backwards.\<close>

lemma header_loop_total_aux:
  "0 < interval_s (timeout_checker s) \<Longrightarrow> \<forall>n. 0 \<le> lag s n \<Longrightarrow>
   timeout_s (timeout_checker s) + start_time (timeout_checker s) - clock s
      < of_nat n * interval_s (timeout_checker s) \<Longrightarrow>
   \<exists>y. header_loop h s = Some y"
proof (induction n arbitrary: s h)
  case 0
  obtain r s1 where ct: "check_timeout s = (r, s1)" by (cases "check_timeout s")
  have "0 \<le> lag s (ticks s)" using 0(2) by blast
  moreover have "timeout_s (timeout_checker s) + start_time (timeout_checker s) < clock s"
    using 0(3) by simp
  ultimately have "\<not> clock s + lag s (ticks s) - start_time (timeout_checker s)
      \<le> timeout_s (timeout_checker s)" by linarith
  with check_timeout_Inr(9) [of s _ s1] ct obtain e where "r = Inl e" by (cases r) auto
  with ct show ?case by (subst header_loop.simps) simp
next
  case (Suc n)
  obtain r s1 where ct: "check_timeout s = (r, s1)" by (cases "check_timeout s")
  show ?case
  proof (cases r)
    case (Inl e)
    with ct show ?thesis by (subst header_loop.simps) simp
  next
    case (Inr u)
    with ct have ct': "check_timeout s = (Inr u, s1)" by simp
    note f = check_timeout_Inr [OF ct']
    obtain ro s2 where rd: "uart_read 1 s1 = (ro, s2)" by (cases "uart_read 1 s1")
    have tc: "timeout_checker s2 = timeout_checker s" "clock s2 = clock s1" "lag s2 = lag s"
      using rd f by (cases ro; auto dest: uart_read_None uart_read_Some)+
    have l: "0 \<le> lag s (ticks s)" "0 \<le> lag s (ticks s + 1)" using Suc.prems(2) by blast+
    have "\<And>h'. \<exists>y. header_loop h' s2 = Some y"
    proof (rule Suc.IH)
      show "0 < interval_s (timeout_checker s2)" using Suc.prems(1) tc by simp
      show "\<forall>n. 0 \<le> lag s2 n" using Suc.prems(2) tc by simp
      show "timeout_s (timeout_checker s2) + start_time (timeout_checker s2) - clock s2
          < of_nat n * interval_s (timeout_checker s2)"
        using Suc.prems(3) tc f(8) l by (simp add: algebra_simps)
    qed
    then show ?thesis
      using ct' rd
      by (subst header_loop.simps) (auto split: option.splits sum.splits)
  qed
qed

lemma header_loop_total:
  assumes "0 < interval_s (timeout_checker s)" "\<forall>n. 0 \<le> lag s n"
  shows "\<exists>y. header_loop h s = Some y"
proof -
  obtain n where "timeout_s (timeout_checker s) + start_time (timeout_checker s) - clock s
      < of_nat n * interval_s (timeout_checker s)"
    using ex_less_of_nat_mult [OF assms(1)] by blast
  with assms show ?thesis by (rule header_loop_total_aux)
qed

lemma payload_loop_total_aux:
  "0 < interval_s (timeout_checker s) \<Longrightarrow> \<forall>n. 0 \<le> lag s n \<Longrightarrow>
   timeout_s (timeout_checker s) + start_time (timeout_checker s) - clock s
      < of_nat n * interval_s (timeout_checker s) \<Longrightarrow>
   \<exists>y. payload_loop k data s = Some y"
proof (induction n arbitrary: s data)
  case 0
  obtain r s1 where ct: "check_timeout s = (r, s1)" by (cases "check_timeout s")
  have "0 \<le> lag s (ticks s)" using 0(2) by blast
  moreover have "timeout_s (timeout_checker s) + start_time (timeout_checker s) < clock s"
    using 0(3) by simp
  ultimately have "\<not> clock s + lag s (ticks s) - start_time (timeout_checker s)
      \<le> timeout_s (timeout_checker s)" by linarith
  with check_timeout_Inr(9) [of s _ s1] ct obtain e where "r = Inl e" by (cases r) auto
  with ct show ?case by (subst payload_loop.simps) simp
next
  case (Suc n)
  obtain r s1 where ct: "check_timeout s = (r, s1)" by (cases "check_timeout s")
  show ?case
  proof (cases r)
    case (Inl e)
    with ct show ?thesis by (subst payload_loop.simps) simp
  next
    case (Inr u)
    with ct have ct': "check_timeout s = (Inr u, s1)" by simp
    note f = check_timeout_Inr [OF ct']
    obtain ro s2 where rd: "uart_read (k + 1 - length data) s1 = (ro, s2)"
      by (cases "uart_read (k + 1 - length data) s1")
    have tc: "timeout_checker s2 = timeout_checker s" "clock s2 = clock s1" "lag s2 = lag s"
      using rd f by (cases ro; auto dest: uart_read_None uart_read_Some)+
    have l: "0 \<le> lag s (ticks s)" "0 \<le> lag s (ticks s + 1)" using Suc.prems(2) by blast+
    have "\<And>d'. \<exists>y. payload_loop k d' s2 = Some y"
    proof (rule Suc.IH)
      show "0 < interval_s (timeout_checker s2)" using Suc.prems(1) tc by simp
      show "\<forall>n. 0 \<le> lag s2 n" using Suc.prems(2) tc by simp
      show "timeout_s (timeout_checker s2) + start_time (timeout_checker s2) - clock s2
          < of_nat n * interval_s (timeout_checker s2)"
        using Suc.prems(3) tc f(8) l by (simp add: algebra_simps)
    qed
    then show ?thesis
      using ct' rd
      by (subst payload_loop.simps) (auto split: option.splits sum.splits)
  qed
qed

lemma payload_loop_total:
  assumes "0 < interval_s (timeout_checker s)" "\<forall>n. 0 \<le> lag s n"
  shows "\<exists>y. payload_loop k data s = Some y"
proof -
  obtain n where "timeout_s (timeout_checker s) + start_time (timeout_checker s) - clock s
      < of_nat n * interval_s (timeout_checker s)"
    using ex_less_of_nat_mult [OF assms(1)] by blast
  with assms show ?thesis by (rule payload_loop_total_aux)
qed

lemma isdigit_char_ascii: "isdigit_char c \<Longrightarrow> is_ascii c"
  by (simp add: isdigit_char_def is_ascii_def)

lemma isdigit_char_not_colon: "isdigit_char c \<Longrightarrow> c \<noteq> CHR '':''"
  by (auto simp: isdigit_char_def)

text \<open>What the header loop leaves as it is, and what it returns.\<close>

lemma header_loop_frame:
  assumes "header_loop h s = Some y"
  shows "timeout_checker (snd y) = timeout_checker s \<and> device (snd y) = device s
      \<and> uart_tx (snd y) = uart_tx s \<and> lag (snd y) = lag s
      \<and> (\<exists>n. uart_rx (snd y) = drop n (uart_rx s))
      \<and> (\<forall>h'. fst y = Inr h' \<longrightarrow> isdigit h')"
  using assms
proof (induction h s y rule: header_loop.raw_induct[rotated, consumes 1])
  case (1 loop h s y)
  from 1(2) show ?case
  proof (cases rule: header_body_cases)
    case (stop e s1)
    with check_timeout_Inl [OF stop(1)] show ?thesis by (auto intro: exI [of _ 0])
  next
    case (idle s1)
    from 1(1) [OF idle(2)] check_timeout_Inr [OF idle(1)] show ?thesis by simp
  next
    case (nonascii s1 t c rest m)
    with check_timeout_Inr [OF nonascii(1)] show ?thesis by (auto intro: exI [of _ 1])
  next
    case (digit s1 t c rest)
    from 1(1) [OF digit(4)] check_timeout_Inr [OF digit(1)] digit(2) show ?thesis
      by (auto intro: exI [of _ "Suc _"])
  next
    case (colon s1 t rest)
    with check_timeout_Inr [OF colon(1)] show ?thesis by (auto intro: exI [of _ 1])
  next
    case (flush s1 t c rest)
    from 1(1) [OF flush(6)] check_timeout_Inr [OF flush(1)] flush(2) show ?thesis
      by (auto intro: exI [of _ "Suc _"])
  qed
qed

lemma header_loop_errkind:
  assumes "header_loop h s = Some y"
  shows "\<forall>e. fst y = Inl e \<longrightarrow>
     e = TimedOut \<or> interval_s (timeout_checker s) < 0 \<or> (\<exists>m. e = UnicodeError m)"
  using assms
proof (induction h s y rule: header_loop.raw_induct[rotated, consumes 1])
  case (1 loop h s y)
  from 1(2) show ?case
  proof (cases rule: header_body_cases)
    case (stop e s1)
    with check_timeout_Inl(7) [OF stop(1)] show ?thesis by auto
  next
    case (idle s1)
    from 1(1) [OF idle(2)] check_timeout_Inr [OF idle(1)] show ?thesis by simp
  next
    case (nonascii s1 t c rest m)
    then show ?thesis by auto
  next
    case (digit s1 t c rest)
    from 1(1) [OF digit(4)] check_timeout_Inr [OF digit(1)] show ?thesis by simp
  next
    case (colon s1 t rest)
    then show ?thesis by simp
  next
    case (flush s1 t c rest)
    from 1(1) [OF flush(6)] check_timeout_Inr [OF flush(1)] show ?thesis by simp
  qed
qed

lemma header_loop_error:
  assumes "header_loop h s = Some y"
  shows "list_all is_ascii (map snd (uart_rx s)) \<longrightarrow> 0 \<le> interval_s (timeout_checker s)
      \<longrightarrow> (\<forall>e. fst y = Inl e \<longrightarrow> e = TimedOut)"
  using assms
proof (induction h s y rule: header_loop.raw_induct[rotated, consumes 1])
  case (1 loop h s y)
  from 1(2) show ?case
  proof (cases rule: header_body_cases)
    case (stop e s1)
    with check_timeout_Inl(7) [OF stop(1)] show ?thesis by auto
  next
    case (idle s1)
    from 1(1) [OF idle(2)] check_timeout_Inr [OF idle(1)] show ?thesis by simp
  next
    case (nonascii s1 t c rest m)
    then show ?thesis by auto
  next
    case (digit s1 t c rest)
    from 1(1) [OF digit(4)] check_timeout_Inr [OF digit(1)] digit(2) show ?thesis by simp
  next
    case (colon s1 t rest)
    then show ?thesis by simp
  next
    case (flush s1 t c rest)
    from 1(1) [OF flush(6)] check_timeout_Inr [OF flush(1)] flush(2) show ?thesis by simp
  qed
qed

text \<open>
  When a loop ends in a timeout, the clock is past the timeout, by at most one poll
  interval and the lag of two calls; and when it ends otherwise, the clock is at most one
  interval and one lag past it.
\<close>

lemma header_loop_timing:
  assumes "header_loop h s = Some y"
  shows "(\<forall>n. 0 \<le> lag s n \<and> lag s n \<le> eps) \<longrightarrow>
     clock s - start_time (timeout_checker s)
        \<le> max (timeout_s (timeout_checker s)) 0 + interval_s (timeout_checker s) + eps \<longrightarrow>
     (fst y = Inl TimedOut \<longrightarrow>
        timeout_s (timeout_checker s) < clock (snd y) - start_time (timeout_checker s)
        \<and> clock (snd y) - start_time (timeout_checker s)
            \<le> max (timeout_s (timeout_checker s)) 0 + interval_s (timeout_checker s) + 2 * eps)
     \<and> ((\<exists>h'. fst y = Inr h') \<longrightarrow>
        clock (snd y) - start_time (timeout_checker s)
            \<le> max (timeout_s (timeout_checker s)) 0 + interval_s (timeout_checker s) + eps)"
  using assms
proof (induction h s y rule: header_loop.raw_induct[rotated, consumes 1])
  case (1 loop h s y)
  have step: "clock s1 - start_time (timeout_checker s1)
        \<le> max (timeout_s (timeout_checker s1)) 0 + interval_s (timeout_checker s1) + eps"
    if "check_timeout s = (Inr (), s1)" "\<forall>n. 0 \<le> lag s n \<and> lag s n \<le> eps" for s1
  proof -
    note f = check_timeout_Inr [OF that(1)]
    have "lag s (ticks s + 1) \<le> eps" using that(2) by blast
    with f(3,8,9) show ?thesis by simp
  qed
  from 1(2) show ?case
  proof (cases rule: header_body_cases)
    case (stop e s1)
    note f = check_timeout_Inl [OF stop(1)]
    show ?thesis
    proof (intro impI conjI)
      assume a: "\<forall>n. 0 \<le> lag s n \<and> lag s n \<le> eps"
        "clock s - start_time (timeout_checker s)
          \<le> max (timeout_s (timeout_checker s)) 0 + interval_s (timeout_checker s) + eps"
        "fst y = Inl TimedOut"
      from a(3) stop(2) have e: "e = TimedOut" by simp
      show "timeout_s (timeout_checker s) < clock (snd y) - start_time (timeout_checker s)"
        using stop(1,2) e
        by (auto simp: check_timeout_def expired_def time_time_def sleep_def Let_def
            split: if_splits)
      have "lag s (ticks s) \<le> eps" using a(1) by blast
      with a(2) f(6) stop(2)
      show "clock (snd y) - start_time (timeout_checker s)
            \<le> max (timeout_s (timeout_checker s)) 0 + interval_s (timeout_checker s) + 2 * eps"
        by simp
    next
      assume "\<exists>h'. fst y = Inr h'"
      with stop(2) show "clock (snd y) - start_time (timeout_checker s)
            \<le> max (timeout_s (timeout_checker s)) 0 + interval_s (timeout_checker s) + eps"
        by simp
    qed
  next
    case (idle s1)
    from 1(1) [OF idle(2)] check_timeout_Inr [OF idle(1)] step [OF idle(1)] show ?thesis by simp
  next
    case (nonascii s1 t c rest m)
    then show ?thesis by auto
  next
    case (digit s1 t c rest)
    from 1(1) [OF digit(4)] check_timeout_Inr [OF digit(1)] step [OF digit(1)] show ?thesis
      by simp
  next
    case (colon s1 t rest)
    with check_timeout_Inr [OF colon(1)] step [OF colon(1)] show ?thesis by simp
  next
    case (flush s1 t c rest)
    from 1(1) [OF flush(6)] check_timeout_Inr [OF flush(1)] step [OF flush(1)] show ?thesis
      by simp
  qed
qed

text \<open>The header loop returns what the scan of the bytes finds.\<close>

lemma header_loop_scan:
  assumes "header_loop h s = Some y"
  shows "(\<forall>h'. fst y = Inr h' \<longrightarrow>
            header_scan h (map snd (uart_rx s)) = Some (Inr (h', map snd (uart_rx (snd y)))))
     \<and> (\<forall>m. fst y = Inl (UnicodeError m) \<longrightarrow>
            (\<exists>m'. header_scan h (map snd (uart_rx s)) = Some (Inl (UnicodeError m'))))"
  using assms
proof (induction h s y rule: header_loop.raw_induct[rotated, consumes 1])
  case (1 loop h s y)
  from 1(2) show ?case
  proof (cases rule: header_body_cases)
    case (stop e s1)
    with check_timeout_Inl(7) [OF stop(1)] show ?thesis
      by (auto simp: check_timeout_def expired_def time_time_def sleep_def Let_def
          split: if_splits)
  next
    case (idle s1)
    from 1(1) [OF idle(2)] check_timeout_Inr [OF idle(1)] show ?thesis by simp
  next
    case (nonascii s1 t c rest m)
    then show ?thesis by (auto simp: decode_ascii_def)
  next
    case (digit s1 t c rest)
    from 1(1) [OF digit(4)] digit(2,3) show ?thesis
      by (simp add: decode_ascii_def isdigit_def isdigit_char_ascii)
  next
    case (colon s1 t rest)
    then show ?thesis by (simp add: decode_ascii_def isdigit_def is_ascii_def isdigit_char_def)
  next
    case (flush s1 t c rest)
    from 1(1) [OF flush(6)] flush(2,3,4,5) show ?thesis
      by (auto simp: decode_ascii_def isdigit_def)
  qed
qed

text \<open>What a returning payload loop has read.\<close>

lemma payload_loop_result:
  assumes "payload_loop k data s = Some y"
  shows "timeout_checker (snd y) = timeout_checker s \<and> device (snd y) = device s
      \<and> uart_tx (snd y) = uart_tx s \<and> lag (snd y) = lag s \<and>
     (\<forall>e. fst y = Inl e \<longrightarrow> e = TimedOut \<or> interval_s (timeout_checker s) < 0) \<and>
     (\<forall>d. fst y = Inr d \<longrightarrow> length data \<le> k + 1 \<longrightarrow>
          (d = data @ map snd (take (k + 1 - length data) (uart_rx s))
           \<and> length d = k + 1
           \<and> uart_rx (snd y) = drop (k + 1 - length data) (uart_rx s)))"
  using assms
proof (induction k data s y rule: payload_loop.raw_induct[rotated, consumes 1])
  case (1 loop k data s y)
  from 1(2) show ?case
  proof (cases rule: payload_body_cases)
    case full
    then show ?thesis by auto
  next
    case (stop e s1)
    with check_timeout_Inl [OF stop(2)] show ?thesis by auto
  next
    case (idle s1)
    from 1(1) [OF idle(3)] check_timeout_Inr [OF idle(2)] show ?thesis by simp
  next
    case (more s1 r)
    note ih = 1(1) [OF more(7)]
    note f = check_timeout_Inr [OF more(2)]
    have len: "length (data @ r) \<le> k + 1" using more(1,4) by simp
    have split: "take (k + 1 - length data) (uart_rx s)
        = take (length r) (uart_rx s) @ take (k + 1 - length (data @ r)) (drop (length r) (uart_rx s))"
    proof -
      have "k + 1 - length data = length r + (k + 1 - length (data @ r))"
        using more(4) by simp
      then show ?thesis by (metis take_add)
    qed
    have dr: "drop (k + 1 - length data) (uart_rx s)
        = drop (k + 1 - length (data @ r)) (drop (length r) (uart_rx s))"
    proof -
      have "k + 1 - length data = (k + 1 - length (data @ r)) + length r"
        using more(4) by simp
      then show ?thesis by (metis drop_drop)
    qed
    show ?thesis
    proof (intro conjI allI impI)
      fix d assume d: "fst y = Inr d" "length data \<le> k + 1"
      from ih d(1) len
      have d1: "d = (data @ r) @ map snd (take (k + 1 - length (data @ r)) (drop (length r) (uart_rx s)))"
        and l1: "length d = k + 1"
        and r1: "uart_rx (snd y) = drop (k + 1 - length (data @ r)) (drop (length r) (uart_rx s))"
        by auto
      show "d = data @ map snd (take (k + 1 - length data) (uart_rx s))"
        unfolding d1 split using more(6) by simp
      show "length d = k + 1" by (rule l1)
      show "uart_rx (snd y) = drop (k + 1 - length data) (uart_rx s)"
        unfolding r1 dr ..
    qed (use ih f in auto)
  qed
qed

lemma payload_loop_Inr:
  assumes "payload_loop k [] s = Some (Inr d, s')"
  shows "k + 1 \<le> length (uart_rx s) \<and> d = map snd (take (k + 1) (uart_rx s))
     \<and> uart_rx s' = drop (k + 1) (uart_rx s) \<and> timeout_checker s' = timeout_checker s
     \<and> device s' = device s \<and> uart_tx s' = uart_tx s \<and> lag s' = lag s"
proof -
  note raw = payload_loop_result [OF assms, unfolded fst_conv snd_conv]
  from raw have fr: "timeout_checker s' = timeout_checker s" "device s' = device s"
      "uart_tx s' = uart_tx s" "lag s' = lag s"
    by blast+
  from raw have all: "length ([] :: bytes) \<le> k + 1 \<longrightarrow>
          (d = [] @ map snd (take (k + 1 - length ([] :: bytes)) (uart_rx s))
           \<and> length d = k + 1
           \<and> uart_rx s' = drop (k + 1 - length ([] :: bytes)) (uart_rx s))"
    by blast
  have e: "length ([] :: bytes) \<le> k + 1" "k + 1 - length ([] :: bytes) = k + 1" by simp_all
  from all e(1) have "d = [] @ map snd (take (k + 1 - length ([] :: bytes)) (uart_rx s))"
    and l: "length d = k + 1"
    and "uart_rx s' = drop (k + 1 - length ([] :: bytes)) (uart_rx s)"
    by blast+
  then have d: "d = map snd (take (k + 1) (uart_rx s))"
    and rx: "uart_rx s' = drop (k + 1) (uart_rx s)"
    unfolding e(2) by simp_all
  have "length d = min (length (uart_rx s)) (k + 1)" unfolding d by simp
  with l have "k + 1 \<le> length (uart_rx s)" by arith
  with fr d rx show ?thesis by blast
qed

lemma payload_loop_Inl:
  assumes "payload_loop k data s = Some (Inl e, s')" "0 \<le> interval_s (timeout_checker s)"
  shows "e = TimedOut"
  using payload_loop_result [OF assms(1)] assms(2) by auto

lemma payload_loop_timing:
  assumes "payload_loop k data s = Some y"
  shows "(\<forall>n. 0 \<le> lag s n \<and> lag s n \<le> eps) \<longrightarrow>
     clock s - start_time (timeout_checker s)
        \<le> max (timeout_s (timeout_checker s)) 0 + interval_s (timeout_checker s) + eps \<longrightarrow>
     (fst y = Inl TimedOut \<longrightarrow>
        timeout_s (timeout_checker s) < clock (snd y) - start_time (timeout_checker s)
        \<and> clock (snd y) - start_time (timeout_checker s)
            \<le> max (timeout_s (timeout_checker s)) 0 + interval_s (timeout_checker s) + 2 * eps)"
  using assms
proof (induction k data s y rule: payload_loop.raw_induct[rotated, consumes 1])
  case (1 loop k data s y)
  have step: "clock s1 - start_time (timeout_checker s1)
        \<le> max (timeout_s (timeout_checker s1)) 0 + interval_s (timeout_checker s1) + eps"
    if "check_timeout s = (Inr (), s1)" "\<forall>n. 0 \<le> lag s n \<and> lag s n \<le> eps" for s1
  proof -
    note f = check_timeout_Inr [OF that(1)]
    have "lag s (ticks s + 1) \<le> eps" using that(2) by blast
    with f(3,8,9) show ?thesis by simp
  qed
  from 1(2) show ?case
  proof (cases rule: payload_body_cases)
    case full
    then show ?thesis by simp
  next
    case (stop e s1)
    note f = check_timeout_Inl [OF stop(2)]
    show ?thesis
    proof (intro impI conjI)
      assume a: "\<forall>n. 0 \<le> lag s n \<and> lag s n \<le> eps"
        "clock s - start_time (timeout_checker s)
          \<le> max (timeout_s (timeout_checker s)) 0 + interval_s (timeout_checker s) + eps"
        "fst y = Inl TimedOut"
      from a(3) stop(3) have e: "e = TimedOut" by simp
      show "timeout_s (timeout_checker s) < clock (snd y) - start_time (timeout_checker s)"
        using stop(2,3) e
        by (auto simp: check_timeout_def expired_def time_time_def sleep_def Let_def
            split: if_splits)
      have "lag s (ticks s) \<le> eps" using a(1) by blast
      with a(2) f(6) stop(3)
      show "clock (snd y) - start_time (timeout_checker s)
            \<le> max (timeout_s (timeout_checker s)) 0 + interval_s (timeout_checker s) + 2 * eps"
        by simp
    qed
  next
    case (idle s1)
    from 1(1) [OF idle(3)] check_timeout_Inr [OF idle(2)] step [OF idle(2)] show ?thesis by simp
  next
    case (more s1 r)
    from 1(1) [OF more(7)] check_timeout_Inr [OF more(2)] step [OF more(2)] show ?thesis by simp
  qed
qed













lemma receive_netstring_cases:
  assumes "receive_netstring timeout s = Some (r, s2)"
  obtains (header) e where "header_loop [] (start_timer (Some timeout) s) = Some (Inl e, s2)" "r = Inl e"
  | (payload) h s1 L y where "header_loop [] (start_timer (Some timeout) s) = Some (Inr h, s1)"
      "isdigit h" "py_int h = Inr L" "payload_loop L [] s1 = Some y" "snd y = s2"
      "r = (case fst y of Inl e \<Rightarrow> Inl e | Inr data \<Rightarrow> finish_netstring data)"
proof -
  obtain y0 where y0: "header_loop [] (start_timer (Some timeout) s) = Some y0"
    using assms by (auto simp: receive_netstring_def split: option.splits)
  obtain r0 s1 where p0: "y0 = (r0, s1)" by (cases y0)
  show ?thesis
  proof (cases r0)
    case (Inl e)
    with y0 p0 assms show ?thesis by (intro header [of e]) (auto simp: receive_netstring_def)
  next
    case (Inr h)
    from header_loop_frame [OF y0] p0 Inr have dg: "isdigit h" by simp
    then obtain L where L: "py_int h = Inr L" by (simp add: py_int_def)
    from assms y0 p0 Inr L obtain y where y: "payload_loop L [] s1 = Some y"
      by (auto simp: receive_netstring_def split: option.splits)
    show ?thesis
    proof (rule payload [of h s1 L y])
      show "header_loop [] (start_timer (Some timeout) s) = Some (Inr h, s1)"
        using y0 p0 Inr by simp
      show "snd y = s2" using assms y0 p0 Inr L y
        by (cases y) (auto simp: receive_netstring_def split: sum.splits)
      show "r = (case fst y of Inl e \<Rightarrow> Inl e | Inr data \<Rightarrow> finish_netstring data)"
        using assms y0 p0 Inr L y
        by (cases y) (auto simp: receive_netstring_def split: sum.splits)
    qed (rule dg L y)+
  qed
qed

lemma finish_netstring_take:
  assumes "L + 1 \<le> length rx"
  shows "finish_netstring (map snd (take (L + 1) rx))
     = (if snd (rx ! L) \<noteq> CHR '','' then Inl FramingError else decode_ascii (map snd (take L rx)))"
proof -
  have t: "take (L + 1) rx = take L rx @ [rx ! L]"
    using assms by (simp add: take_Suc_conv_app_nth)
  show ?thesis unfolding t by (simp add: finish_netstring_def)
qed

text \<open>
  Claim C3, as amended. After the header loop has returned a header \<open>h\<close> in state \<open>s1\<close>,
  and unless the payload loop runs out of time: \<open>h\<close> is the decimal text of a length \<open>L\<close>,
  \<^verbatim>\<open>receive_netstring\<close> takes exactly the next \<open>L + 1\<close> bytes from the UART, and it fails
  with \<open>FramingError\<close> when the last of them is not a comma; otherwise it returns exactly
  the first \<open>L\<close> bytes as text when they are all ASCII, and fails with the
  \<open>UnicodeError\<close> of the decoder when one of them is above 127.
\<close>

theorem payload_and_terminator:
  assumes hdr: "header_loop [] (start_timer (Some timeout) s) = Some (Inr h, s1)"
    and rcv: "receive_netstring timeout s = Some (r, s2)"
    and intime: "r \<noteq> Inl TimedOut"
    and interval: "0 \<le> interval_s (timeout_checker s)"
  shows "\<exists>L. py_int h = Inr L \<and> L + 1 \<le> length (uart_rx s1)
           \<and> uart_rx s2 = drop (L + 1) (uart_rx s1)
           \<and> r = (if snd (uart_rx s1 ! L) \<noteq> CHR '','' then Inl FramingError
                  else if list_all is_ascii (map snd (take L (uart_rx s1)))
                  then Inr (map snd (take L (uart_rx s1)))
                  else Inl (UnicodeError
                         ''ascii codec can not decode byte: ordinal not in range(128)''))"
  using rcv
proof (cases rule: receive_netstring_cases)
  case (header e)
  with hdr show ?thesis by simp
next
  case (payload h' s1' L y)
  with hdr have eq: "h' = h" "s1' = s1" by simp_all
  have i1: "0 \<le> interval_s (timeout_checker s1)"
    using header_loop_frame [OF hdr] interval by (simp add: start_timer_fields)
  obtain ry sy where y: "y = (ry, sy)" by (cases y)
  show ?thesis
  proof (cases ry)
    case (Inl e)
    with payload_loop_Inl [OF _ i1] payload(4,6) y eq intime show ?thesis by auto
  next
    case (Inr data)
    with payload(4) y eq have "payload_loop L [] s1 = Some (Inr data, sy)" by simp
    from payload_loop_Inr [OF this]
    have len: "L + 1 \<le> length (uart_rx s1)" and d: "data = map snd (take (L + 1) (uart_rx s1))"
      and rx: "uart_rx sy = drop (L + 1) (uart_rx s1)"
      by simp_all
    from payload(6) Inr y d have "r = finish_netstring (map snd (take (L + 1) (uart_rx s1)))" by simp
    with finish_netstring_take [OF len] rx len payload(3,5) eq y show ?thesis
      by (auto simp: decode_ascii_def)
  qed
qed

lemma receive_netstring_failures:
  assumes rcv: "receive_netstring timeout s = Some (r, s')"
    and i0: "0 \<le> interval_s (timeout_checker s)"
  shows "(\<forall>e. r = Inl e \<longrightarrow> e = TimedOut \<or> e = FramingError \<or> (\<exists>m. e = UnicodeError m))
     \<and> (list_all is_ascii (map snd (uart_rx s)) \<longrightarrow> (\<forall>m. r \<noteq> Inl (UnicodeError m)))"
  using rcv
proof (cases rule: receive_netstring_cases)
  case (header e)
  from header_loop_errkind [OF header(1)] i0
  have "e = TimedOut \<or> (\<exists>m. e = UnicodeError m)" by (auto simp: start_timer_fields)
  moreover from header_loop_error [OF header(1)] i0
  have "list_all is_ascii (map snd (uart_rx s)) \<longrightarrow> e = TimedOut"
    by (simp add: start_timer_fields)
  ultimately show ?thesis using header(2) by auto
next
  case (payload h s1 L y)
  have i1: "0 \<le> interval_s (timeout_checker s1)"
    using header_loop_frame [OF payload(1)] i0 by (simp add: start_timer_fields)
  obtain ry sy where y: "y = (ry, sy)" by (cases y)
  show ?thesis
  proof (cases ry)
    case (Inl e)
    with payload_loop_Inl [of L "[]" s1 e sy] payload(4,6) y i1 show ?thesis by auto
  next
    case (Inr data)
    with payload(4) y have "payload_loop L [] s1 = Some (Inr data, sy)" by simp
    from payload_loop_Inr [OF this]
    have len: "L + 1 \<le> length (uart_rx s1)" and d: "data = map snd (take (L + 1) (uart_rx s1))"
      by simp_all
    from len d have ne: "data \<noteq> []" by auto
    from header_loop_frame [OF payload(1)] obtain n where "uart_rx s1 = drop n (uart_rx s)"
      by (auto simp: start_timer_fields)
    then have "set (butlast data) \<subseteq> set (map snd (uart_rx s))"
      unfolding d
      by (metis (no_types, lifting) in_set_butlastD in_set_dropD in_set_takeD list.set_map
          image_mono subsetI subset_trans)
    then have "list_all is_ascii (map snd (uart_rx s)) \<longrightarrow> list_all is_ascii (butlast data)"
      by (auto simp: list_all_iff)
    with Inr payload(6) y ne show ?thesis
      by (auto simp: finish_netstring_def decode_ascii_def split: if_splits)
  qed
qed

text \<open>Bytes that never complete a frame end in the timeout.\<close>

lemma incomplete_times_out:
  assumes i: "0 \<le> interval_s (timeout_checker s)"
    and inc: "incomplete (map snd (uart_rx s))"
    and rcv: "receive_netstring timeout s = Some (r, s')"
  shows "r = Inl TimedOut"
  using rcv
proof (cases rule: receive_netstring_cases)
  case (header e)
  from header_loop_errkind [OF header(1)] i
  have "e = TimedOut \<or> (\<exists>m. e = UnicodeError m)" by (auto simp: start_timer_fields)
  moreover have "e \<noteq> UnicodeError m" for m
  proof
    assume "e = UnicodeError m"
    with header_loop_scan [OF header(1)]
    obtain m' where "header_scan [] (map snd (uart_rx s)) = Some (Inl (UnicodeError m'))"
      by (auto simp: start_timer_fields)
    with inc show False by (simp add: incomplete_def)
  qed
  ultimately show ?thesis using header(2) by auto
next
  case (payload h s1 L y)
  from header_loop_scan [OF payload(1)]
  have sc: "header_scan [] (map snd (uart_rx s)) = Some (Inr (h, map snd (uart_rx s1)))"
    by (simp add: start_timer_fields)
  with inc payload(3) have short: "length (uart_rx s1) < L + 1"
    by (simp add: incomplete_def)
  have i1: "0 \<le> interval_s (timeout_checker s1)"
    using header_loop_frame [OF payload(1)] i by (simp add: start_timer_fields)
  obtain ry sy where y: "y = (ry, sy)" by (cases y)
  show ?thesis
  proof (cases ry)
    case (Inl e)
    with payload_loop_Inl [of L "[]" s1 e sy] payload(4,6) y i1 show ?thesis by auto
  next
    case (Inr data)
    with payload(4) y have "payload_loop L [] s1 = Some (Inr data, sy)" by simp
    from payload_loop_Inr [OF this] short show ?thesis by simp
  qed
qed

text \<open>When the decode ends in the timeout, and where the timer then stands.\<close>

lemma receive_netstring_timing:
  assumes rcv: "receive_netstring timeout s = Some (r, s')"
    and lg: "\<forall>n. 0 \<le> lag s n \<and> lag s n \<le> eps"
    and i: "0 \<le> interval_s (timeout_checker s)"
  shows "timeout_checker s'
       = (timeout_checker s)\<lparr>start_time := clock s + lag s (ticks s),
            timeout_s := (if timeout \<noteq> 0 then timeout else timeout_s (timeout_checker s))\<rparr>
     \<and> (r = Inl TimedOut \<longrightarrow>
          timeout_s (timeout_checker s') < clock s' - start_time (timeout_checker s')
          \<and> clock s' - start_time (timeout_checker s')
              \<le> max (timeout_s (timeout_checker s')) 0 + interval_s (timeout_checker s') + 2 * eps)"
proof -
  let ?s0 = "start_timer (Some timeout) s"
  have tc0: "timeout_checker ?s0
       = (timeout_checker s)\<lparr>start_time := clock s + lag s (ticks s),
            timeout_s := (if timeout \<noteq> 0 then timeout else timeout_s (timeout_checker s))\<rparr>"
    by (simp add: start_timer_def time_time_def Let_def)
  have e0: "0 \<le> eps" using lg by (meson order_trans)
  have lg0: "\<forall>n. 0 \<le> lag ?s0 n \<and> lag ?s0 n \<le> eps" using lg by (simp add: start_timer_fields)
  have inv0: "clock ?s0 - start_time (timeout_checker ?s0)
      \<le> max (timeout_s (timeout_checker ?s0)) 0 + interval_s (timeout_checker ?s0) + eps"
    using i e0 by (simp add: start_timer_fields)
  from rcv show ?thesis
  proof (cases rule: receive_netstring_cases)
    case (header e)
    from header_loop_frame [OF header(1)] have tc: "timeout_checker s' = timeout_checker ?s0"
      by simp
    from header_loop_timing [OF header(1), of eps] lg0 inv0 header(2)
    have "r = Inl TimedOut \<longrightarrow>
          timeout_s (timeout_checker ?s0) < clock s' - start_time (timeout_checker ?s0)
          \<and> clock s' - start_time (timeout_checker ?s0)
              \<le> max (timeout_s (timeout_checker ?s0)) 0 + interval_s (timeout_checker ?s0) + 2 * eps"
      by simp
    with tc tc0 show ?thesis by simp
  next
    case (payload h s1 L y)
    from header_loop_frame [OF payload(1)]
    have tc1: "timeout_checker s1 = timeout_checker ?s0" and lg1: "lag s1 = lag ?s0" by simp_all
    from header_loop_timing [OF payload(1), of eps] lg0 inv0
    have inv1: "clock s1 - start_time (timeout_checker s1)
      \<le> max (timeout_s (timeout_checker s1)) 0 + interval_s (timeout_checker s1) + eps"
      using tc1 by simp
    from payload_loop_result [OF payload(4)] payload(5)
    have tc: "timeout_checker s' = timeout_checker s1" by simp
    have i1: "0 \<le> interval_s (timeout_checker s1)" using i tc1 by (simp add: start_timer_fields)
    have "r = Inl TimedOut \<longrightarrow> fst y = Inl TimedOut"
    proof
      assume t: "r = Inl TimedOut"
      show "fst y = Inl TimedOut"
      proof (cases "fst y")
        case (Inl e)
        with payload(6) t show ?thesis by simp
      next
        case (Inr data)
        with payload(6) t show ?thesis
          by (auto simp: finish_netstring_def decode_ascii_def split: if_splits)
      qed
    qed
    with payload_loop_timing [OF payload(4), of eps] lg0 lg1 inv1 payload(5)
    have "r = Inl TimedOut \<longrightarrow>
          timeout_s (timeout_checker s1) < clock s' - start_time (timeout_checker s1)
          \<and> clock s' - start_time (timeout_checker s1)
              \<le> max (timeout_s (timeout_checker s1)) 0 + interval_s (timeout_checker s1) + 2 * eps"
      by auto
    with tc tc1 tc0 show ?thesis by simp
  qed
qed

text \<open>
  Claim C4, as amended. Let the poll interval be positive, the wall clock never run
  backwards, and the lag before each call into \<^verbatim>\<open>time\<close> be at most \<open>eps\<close>. Then
  \<^verbatim>\<open>receive_netstring\<close> always returns, whatever the UART delivers and whenever. It
  starts the timer at the time of the call, with the given timeout (the timeout it had
  when the given one is \<open>0\<close>). A failure is a timeout, a missing trailing comma or a byte
  the ASCII decoder rejects, the last only when the UART delivers a byte above 127. The
  timeout is raised only when the time since the start exceeds the timeout, and then by
  no more than a poll interval and two lags. And bytes that never complete a frame end
  in the timeout, unless a byte above 127 ends the scan before.
\<close>

theorem receive_netstring_terminates:
  assumes "0 < interval_s (timeout_checker s)"
    and "\<forall>n. 0 \<le> lag s n \<and> lag s n \<le> eps"
  shows "\<exists>r s'. receive_netstring timeout s = Some (r, s')
     \<and> timeout_checker s'
         = (timeout_checker s)\<lparr>start_time := clock s + lag s (ticks s),
              timeout_s := (if timeout \<noteq> 0 then timeout else timeout_s (timeout_checker s))\<rparr>
     \<and> (\<forall>e. r = Inl e \<longrightarrow> e = TimedOut \<or> e = FramingError \<or> (\<exists>m. e = UnicodeError m))
     \<and> (list_all is_ascii (map snd (uart_rx s)) \<longrightarrow> (\<forall>m. r \<noteq> Inl (UnicodeError m)))
     \<and> (r = Inl TimedOut \<longrightarrow>
          timeout_s (timeout_checker s') < clock s' - start_time (timeout_checker s')
          \<and> clock s' - start_time (timeout_checker s')
              \<le> max (timeout_s (timeout_checker s')) 0 + interval_s (timeout_checker s') + 2 * eps)
     \<and> (incomplete (map snd (uart_rx s)) \<longrightarrow> r = Inl TimedOut)"
proof -
  let ?s0 = "start_timer (Some timeout) s"
  have i0: "0 < interval_s (timeout_checker ?s0)" using assms by (simp add: start_timer_fields)
  have l0: "\<forall>n. 0 \<le> lag ?s0 n" using assms(2) by (simp add: start_timer_fields)
  obtain y0 where y0: "header_loop [] ?s0 = Some y0" using header_loop_total [OF i0 l0] by blast
  obtain r0 s1 where p0: "y0 = (r0, s1)" by (cases y0)
  have i1: "interval_s (timeout_checker s1) = interval_s (timeout_checker s)"
    and l1: "lag s1 = lag s"
    using header_loop_frame [OF y0] p0 by (simp_all add: start_timer_fields)
  have "\<exists>r s'. receive_netstring timeout s = Some (r, s')"
  proof (cases r0)
    case (Inl e)
    with y0 p0 show ?thesis by (simp add: receive_netstring_def)
  next
    case (Inr h)
    from header_loop_frame [OF y0] p0 Inr have "isdigit h" by simp
    then obtain L where L: "py_int h = Inr L" by (simp add: py_int_def)
    obtain y where y: "payload_loop L [] s1 = Some y"
      using payload_loop_total [of s1 L "[]"] i1 l1 assms by auto
    with y0 p0 Inr L show ?thesis
      by (cases y) (auto simp: receive_netstring_def split: sum.splits)
  qed
  then obtain r s' where rcv: "receive_netstring timeout s = Some (r, s')" by blast
  have nn: "0 \<le> interval_s (timeout_checker s)" using assms by simp
  note kinds = receive_netstring_failures [OF rcv nn]
  note timing = receive_netstring_timing [OF rcv assms(2) nn]
  have "incomplete (map snd (uart_rx s)) \<longrightarrow> r = Inl TimedOut"
    using incomplete_times_out [OF nn _ rcv] by blast
  with rcv kinds timing show ?thesis by blast
qed

text \<open>
  Claim C2, as amended. In the header loop, let the timeout check pass and the UART
  deliver an ASCII byte \<open>c\<close> that is neither a digit nor a colon after a non-empty
  header (a colon after an empty header is such a byte). Then the loop does not fail
  at this byte: it goes on exactly as a loop started with an empty header on the rest
  of the input; and if only ASCII bytes follow, the only failure still possible in the
  header loop is the timeout. (A byte above 127 does fail the decode: see the
  counterexample.)
\<close>

theorem header_flush_ascii:
  assumes tick: "check_timeout s = (Inr (), s1)"
    and byte: "uart_read 1 s1 = (Some [c], s2)"
    and ascii: "is_ascii c"
    and other: "\<not> isdigit_char c" "\<not> (c = CHR '':'' \<and> isdigit h)"
  shows "header_loop h s = header_loop [] s2
     \<and> (\<forall>e s'. list_all is_ascii (map snd (uart_rx s2)) \<longrightarrow>
            header_loop [] s2 = Some (Inl e, s') \<longrightarrow> e = TimedOut)"
proof
  show "header_loop h s = header_loop [] s2"
    using ascii other
    by (subst header_loop.simps)
       (auto simp: tick byte [unfolded One_nat_def] decode_ascii_def isdigit_def)
next
  have "0 \<le> interval_s (timeout_checker s2)"
    using check_timeout_Inr [OF tick] uart_read_Some [OF byte] by simp
  then show "\<forall>e s'. list_all is_ascii (map snd (uart_rx s2)) \<longrightarrow>
            header_loop [] s2 = Some (Inl e, s') \<longrightarrow> e = TimedOut"
    using header_loop_error by fastforce
qed


text \<open>The byte \<^verbatim>\<open>b\<close> after the header \<^verbatim>\<open>12\<close>: the header is dropped, the loop goes on.\<close>

theorem header_flush_ascii_witness:
  "is_ascii (CHR ''b'') \<and> \<not> isdigit_char (CHR ''b'')
   \<and> fst (check_timeout (ESP32_init 0 (\<lambda>n. 1 / 100) [(0, CHR ''b'')] ())) = Inr ()
   \<and> fst (uart_read 1 (snd (check_timeout (ESP32_init 0 (\<lambda>n. 1 / 100) [(0, CHR ''b'')] ()))))
       = Some ''b''
   \<and> header_loop ''12'' (ESP32_init 0 (\<lambda>n. 1 / 100) [(0, CHR ''b'')] ())
       = header_loop []
           (snd (uart_read 1 (snd (check_timeout (ESP32_init 0 (\<lambda>n. 1 / 100) [(0, CHR ''b'')] ())))))"
proof -
  let ?s = "ESP32_init 0 (\<lambda>n. 1 / 100) [(0, CHR ''b'')] () :: unit ESP32"
  let ?s1 = "snd (check_timeout ?s)"
  let ?s2 = "snd (uart_read 1 ?s1)"
  have c: "fst (check_timeout ?s) = Inr ()" by code_simp
  have u: "fst (uart_read 1 ?s1) = Some ''b''" by code_simp
  have h1: "check_timeout ?s = (Inr (), ?s1)" using c by (metis prod.collapse)
  have h2: "uart_read 1 ?s1 = (Some [CHR ''b''], ?s2)" using u by (metis prod.collapse)
  have h3: "is_ascii (CHR ''b'')" by code_simp
  have h4: "\<not> isdigit_char (CHR ''b'')" by code_simp
  have h5: "\<not> (CHR ''b'' = CHR '':'' \<and> isdigit ''12'')" by simp
  from header_flush_ascii [OF h1 h2 h3 h4 h5] have "header_loop ''12'' ?s = header_loop [] ?s2"
    by (rule conjunct1)
  with h3 h4 c u show ?thesis by (intro conjI)
qed

text \<open>
  Claim C2 as stated fails on the byte \<open>0xFF\<close>: it is neither a digit nor a colon, and
  \<^verbatim>\<open>header_byte.decode('ascii')\<close> raises, which ends \<^verbatim>\<open>receive_netstring\<close> at its first byte.
\<close>

theorem header_non_ascii_counterexample:
  "\<not> isdigit_char (CHR 0xFF) \<and> CHR 0xFF \<noteq> CHR '':''
   \<and> receive_netstring 5 (ESP32_init 0 (\<lambda>n. 1 / 100) [(0, CHR 0xFF)] ())
       = Some (Inl (UnicodeError ''ascii codec can not decode byte: ordinal not in range(128)''),
               \<lparr>clock = 1 / 4, lag = \<lambda>n. 1 / 100, ticks = 5, uart_rx = [], uart_tx = [],
                 timeout_checker = \<lparr>timeout_s = 5, interval_s = 1 / 5,
                   last_updated_time = 1 / 100, start_time = 3 / 100\<rparr>,
                 device = ()\<rparr>)"
  by (simp add: receive_netstring_def header_loop.simps start_timer_def time_time_def
      pass_time_def ESP32_init_def check_timeout_def expired_def sleep_def uart_read_def
      decode_ascii_def is_ascii_def isdigit_char_def Let_def)

text \<open>The frame \<^verbatim>\<open>1:n,\<close>: header \<^verbatim>\<open>1\<close>, then two bytes, the second a comma.\<close>

theorem payload_and_terminator_witness:
  "map_option (\<lambda>(r, s'). (r, uart_rx s'))
       (header_loop [] (start_timer (Some 5) (ESP32_init 0 (\<lambda>n. 1 / 100) (map (Pair 0) ''1:n,'') ())))
      = Some (Inr ''1'', map (Pair 0) ''n,'')
   \<and> map_option (\<lambda>(r, s'). (r, uart_rx s'))
       (receive_netstring 5 (ESP32_init 0 (\<lambda>n. 1 / 100) (map (Pair 0) ''1:n,'') ()))
      = Some (Inr ''n'', [])
   \<and> (\<exists>L. py_int ''1'' = Inr L \<and> L + 1 \<le> length (map (Pair (0 :: rat)) ''n,'')
         \<and> [] = drop (L + 1) (map (Pair (0 :: rat)) ''n,'')
         \<and> Inr ''n'' = (if snd (map (Pair (0 :: rat)) ''n,'' ! L) \<noteq> CHR '','' then Inl FramingError
                  else if list_all is_ascii (map snd (take L (map (Pair (0 :: rat)) ''n,'')))
                  then Inr (map snd (take L (map (Pair (0 :: rat)) ''n,'')))
                  else Inl (UnicodeError
                         ''ascii codec can not decode byte: ordinal not in range(128)'')))"
proof -
  let ?s = "ESP32_init 0 (\<lambda>n. 1 / 100) (map (Pair 0) ''1:n,'') () :: unit ESP32"
  have e1: "map_option (\<lambda>(r, s'). (r, uart_rx s')) (header_loop [] (start_timer (Some 5) ?s))
      = Some (Inr ''1'', map (Pair 0) ''n,'')" by code_simp
  have e2: "map_option (\<lambda>(r, s'). (r, uart_rx s')) (receive_netstring 5 ?s)
      = Some (Inr ''n'', [])" by code_simp
  from e1 obtain s1 where h1: "header_loop [] (start_timer (Some 5) ?s) = Some (Inr ''1'', s1)"
    and rx1: "uart_rx s1 = map (Pair 0) ''n,''" by auto
  from e2 obtain s2 where h2: "receive_netstring 5 ?s = Some (Inr ''n'', s2)"
    and rx2: "uart_rx s2 = []" by auto
  have h3: "(Inr ''n'' :: error + string) \<noteq> Inl TimedOut" by simp
  have h4: "0 \<le> interval_s (timeout_checker ?s)" by (simp add: ESP32_init_def)
  from payload_and_terminator [OF h1 h2 h3 h4] e1 e2 show ?thesis unfolding rx1 rx2 by blast
qed

text \<open>
  Claim C3 as stated fails on the frame \<^verbatim>\<open>1:\<close>, \<open>0xFF\<close>, \<^verbatim>\<open>,\<close>: the header declares one byte,
  two bytes follow and the last is the comma, yet nothing is returned:
  \<^verbatim>\<open>data.decode('ascii')\<close> raises.
\<close>

theorem payload_non_ascii_counterexample:
  "map_option (\<lambda>(r, s'). (r, uart_rx s'))
       (receive_netstring 5
          (ESP32_init 0 (\<lambda>n. 1 / 100) (map (Pair 0) [CHR ''1'', CHR '':'', CHR 0xFF, CHR '','']) ()))
      = Some (Inl (UnicodeError ''ascii codec can not decode byte: ordinal not in range(128)''), [])"
  by code_simp

text \<open>
  \<^verbatim>\<open>test_timeout\<close>: the UART holds \<^verbatim>\<open>10:abc\<close>, the timeout is one second. The decode ends
  in the timeout, more than one second after its start and less than 1.22 seconds.
\<close>

theorem receive_netstring_terminates_witness:
  "0 < interval_s (timeout_checker (ESP32_init 0 (\<lambda>n. 1 / 100) (map (Pair 0) ''10:abc'') ()))
   \<and> incomplete ''10:abc''
   \<and> (\<exists>s'. receive_netstring 1 (ESP32_init 0 (\<lambda>n. 1 / 100) (map (Pair 0) ''10:abc'') ())
              = Some (Inl TimedOut, s')
          \<and> timeout_s (timeout_checker s') = 1
          \<and> 1 < clock s' - start_time (timeout_checker s')
          \<and> clock s' - start_time (timeout_checker s') \<le> 1 + 1 / 5 + 2 / 100)"
proof -
  let ?s = "ESP32_init 0 (\<lambda>n. 1 / 100) (map (Pair 0) ''10:abc'') () :: unit ESP32"
  have h1: "0 < interval_s (timeout_checker ?s)" by (simp add: ESP32_init_def)
  have h2: "\<forall>n. 0 \<le> lag ?s n \<and> lag ?s n \<le> 1 / 100" by (simp add: ESP32_init_def)
  have h3: "incomplete ''10:abc''" by code_simp
  have h4: "map snd (uart_rx ?s) = ''10:abc''" by (simp add: ESP32_init_def)
  from receive_netstring_terminates [OF h1 h2, of 1] h3 h4
  obtain s' where r: "receive_netstring 1 ?s = Some (Inl TimedOut, s')"
    and tc: "timeout_checker s'
         = (timeout_checker ?s)\<lparr>start_time := clock ?s + lag ?s (ticks ?s),
              timeout_s := (if (1 :: rat) \<noteq> 0 then 1 else timeout_s (timeout_checker ?s))\<rparr>"
    and b: "timeout_s (timeout_checker s') < clock s' - start_time (timeout_checker s')"
      "clock s' - start_time (timeout_checker s')
              \<le> max (timeout_s (timeout_checker s')) 0 + interval_s (timeout_checker s') + 2 * (1 / 100)"
    by auto
  from tc have "timeout_s (timeout_checker s') = 1" "interval_s (timeout_checker s') = 1 / 5"
    by (simp_all add: ESP32_init_def)
  with r b h1 h3 show ?thesis by auto
qed

text \<open>
  Claim C4 as stated fails on the two bytes \<^verbatim>\<open>1\<close> and \<open>0x80\<close>: they never complete a
  frame, and \<^verbatim>\<open>receive_netstring\<close> fails at the second with the error of the decoder, not
  with the timeout.
\<close>

theorem incomplete_non_ascii_counterexample:
  "CHR '':'' \<notin> set [CHR ''1'', CHR 0x80]
   \<and> 0 < interval_s (timeout_checker (ESP32_init 0 (\<lambda>n. 1 / 100) [(0, CHR ''1''), (0, CHR 0x80)] ()))
   \<and> map_option fst
        (receive_netstring 5 (ESP32_init 0 (\<lambda>n. 1 / 100) [(0, CHR ''1''), (0, CHR 0x80)] ()))
       = Some (Inl (UnicodeError ''ascii codec can not decode byte: ordinal not in range(128)''))
   \<and> map_option fst
        (receive_netstring 5 (ESP32_init 0 (\<lambda>n. 1 / 100) [(0, CHR ''1''), (0, CHR 0x80)] ()))
       \<noteq> Some (Inl TimedOut)"
  by code_simp

text \<open>
  Claim C5. \<^verbatim>\<open>create_response\<close> and \<^verbatim>\<open>create_error_response\<close> hand \<^verbatim>\<open>json.dumps\<close> an envelope
  whose \<^verbatim>\<open>id\<close> is the given id when that is truthy and \<open>0\<close> otherwise; the values that
  are not truthy are \<^verbatim>\<open>None\<close> (an absent id), \<^verbatim>\<open>False\<close>, \<open>0\<close>, \<open>0.0\<close>, the empty string,
  the empty list and the empty dictionary. So the id \<open>0\<close> gives the same response as no
  id at all.
\<close>

theorem id_or_default:
  "create_response dumps response ident
     = dumps (JDict [(''id'', if truthy ident then ident else JInt 0), (''result'', response)])
   \<and> create_error_response dumps error_msg ident
     = dumps (JDict [(''id'', if truthy ident then ident else JInt 0),
          (''error'', JDict [(''message'', JStr error_msg), (''code'', JInt (- 1))])])
   \<and> (truthy ident \<longleftrightarrow>
        ident \<notin> {JNull, JBool False, JInt 0, JFloat 0, JStr [], JList [], JDict []})
   \<and> create_response dumps response (JInt 0) = create_response dumps response JNull
   \<and> create_error_response dumps error_msg (JInt 0) = create_error_response dumps error_msg JNull"
  by (cases ident) (auto simp: create_response_def create_error_response_def)

text \<open>The id \<open>7\<close> is echoed, the id \<open>0\<close> comes out as the default \<open>0\<close>.\<close>

theorem id_or_default_witness:
  "create_error_response dumps_example ''Invalid JSONRPC request: method is not found!'' (JInt 7)
     = dumps_example not_found_envelope
   \<and> create_response dumps_example (JDict [(''status'', JBool True)]) (JInt 0)
     = dumps_example status_envelope
   \<and> create_response dumps_example (JDict [(''status'', JBool True)]) JNull
     = dumps_example status_envelope"
  using id_or_default [of dumps_example "JDict [(''status'', JBool True)]" "JInt 0"
      "''Invalid JSONRPC request: method is not found!''"]
    id_or_default [of dumps_example "JDict [(''status'', JBool True)]" "JInt 7"
      "''Invalid JSONRPC request: method is not found!''"]
  by (simp add: status_envelope_def not_found_envelope_def)

lemma parse_request_Inr:
  assumes "parse_request loads text = Inr request"
  shows "loads text = Inr (JDict request)
     \<and> (\<exists>m. map_of request ''method'' = Some (JStr m))
     \<and> is_list_dict_none (dict_get request ''params'')"
proof -
  from assms obtain v where v: "loads text = Inr v"
    by (cases "loads text") (auto simp: parse_request_def)
  with assms obtain d where d: "v = JDict d"
    by (cases v) (auto simp: parse_request_def split: if_splits)
  from assms v d obtain mv where mv: "map_of d ''method'' = Some mv"
    by (cases "map_of d ''method''") (auto simp: parse_request_def)
  from assms v d mv obtain m where m: "mv = JStr m"
    by (cases mv) (auto simp: parse_request_def)
  from assms v d mv m have r: "request = d"
    by (auto simp: parse_request_def split: option.splits if_splits)
  from assms v d mv m have "is_list_dict_none (dict_get d ''params'')"
    by (auto simp: parse_request_def dict_get_def split: option.splits if_splits)
  with v d mv m r show ?thesis by simp
qed

text \<open>
  Claim C6, as amended. For every payload text: when \<^verbatim>\<open>json.loads\<close> raises,
  \<^verbatim>\<open>parse_request\<close> fails with \<open>ParseError\<close>. When the parsed value is a dictionary, it
  fails with "method not specified" when there is no key \<^verbatim>\<open>method\<close>, with "method must be
  a string" when the value under \<^verbatim>\<open>method\<close> is not a string, with "invalid params field"
  when there is a key \<^verbatim>\<open>params\<close> whose value is not a list, a dictionary or null, and
  otherwise returns the dictionary as parsed, whatever it holds under \<^verbatim>\<open>id\<close>. When the
  parsed value is not a dictionary, \<^verbatim>\<open>parse_request\<close> never returns it: it fails.
\<close>

theorem parse_request_cases:
  "(loads text = Inl e \<longrightarrow> parse_request loads text = Inl (ParseError e))
   \<and> (loads text = Inr (JDict d) \<longrightarrow>
        (map_of d ''method'' = None \<longrightarrow> parse_request loads text = Inl MethodNotSpecified)
      \<and> (\<forall>mv. map_of d ''method'' = Some mv \<and> (\<forall>m. mv \<noteq> JStr m)
             \<longrightarrow> parse_request loads text = Inl MethodNotString)
      \<and> (\<forall>m p. map_of d ''method'' = Some (JStr m) \<and> map_of d ''params'' = Some p
              \<and> (\<forall>xs. p \<noteq> JList xs) \<and> (\<forall>kvs. p \<noteq> JDict kvs) \<and> p \<noteq> JNull
             \<longrightarrow> parse_request loads text = Inl InvalidParams)
      \<and> (\<forall>m. map_of d ''method'' = Some (JStr m)
              \<and> (map_of d ''params'' = None
                  \<or> (\<exists>xs. map_of d ''params'' = Some (JList xs))
                  \<or> (\<exists>kvs. map_of d ''params'' = Some (JDict kvs))
                  \<or> map_of d ''params'' = Some JNull)
             \<longrightarrow> parse_request loads text = Inr d))
   \<and> (loads text = Inr v \<and> (\<forall>d. v \<noteq> JDict d) \<longrightarrow> (\<exists>err. parse_request loads text = Inl err))"
proof (intro conjI impI allI)
  assume "loads text = Inl e"
  then show "parse_request loads text = Inl (ParseError e)" by (simp add: parse_request_def)
next
  assume "loads text = Inr (JDict d)" "map_of d ''method'' = None"
  then show "parse_request loads text = Inl MethodNotSpecified" by (simp add: parse_request_def)
next
  fix mv
  assume "loads text = Inr (JDict d)" "map_of d ''method'' = Some mv \<and> (\<forall>m. mv \<noteq> JStr m)"
  then show "parse_request loads text = Inl MethodNotString"
    by (cases mv) (simp_all add: parse_request_def)
next
  fix m p
  assume "loads text = Inr (JDict d)"
    "map_of d ''method'' = Some (JStr m) \<and> map_of d ''params'' = Some p
       \<and> (\<forall>xs. p \<noteq> JList xs) \<and> (\<forall>kvs. p \<noteq> JDict kvs) \<and> p \<noteq> JNull"
  then show "parse_request loads text = Inl InvalidParams"
    by (cases p) (simp_all add: parse_request_def)
next
  fix m
  assume "loads text = Inr (JDict d)"
    "map_of d ''method'' = Some (JStr m)
       \<and> (map_of d ''params'' = None
           \<or> (\<exists>xs. map_of d ''params'' = Some (JList xs))
           \<or> (\<exists>kvs. map_of d ''params'' = Some (JDict kvs))
           \<or> map_of d ''params'' = Some JNull)"
  then show "parse_request loads text = Inr d"
    by (auto simp: parse_request_def)
next
  assume "loads text = Inr v \<and> (\<forall>d. v \<noteq> JDict d)"
  then show "\<exists>err. parse_request loads text = Inl err"
    by (cases v) (auto simp: parse_request_def)
qed

text \<open>
  The request of \<^verbatim>\<open>test_set_led_valid\<close> is returned as parsed, the text of
  \<^verbatim>\<open>test_invalid_json\<close> is a \<open>ParseError\<close>, the request of \<^verbatim>\<open>test_missing_method\<close> has no method.
\<close>

theorem parse_request_cases_witness:
  "parse_request loads_example set_led_text = Inr set_led_request
   \<and> parse_request loads_example bad_json_text
       = Inl (ParseError (''JSONDecodeError('' @ [CHR 0x22] @ ''Expecting value'' @ [CHR 0x22] @ '')''))
   \<and> parse_request loads_example missing_method_text = Inl MethodNotSpecified"
proof -
  have l1: "loads_example set_led_text = Inr (JDict set_led_request)" by code_simp
  have m1: "map_of set_led_request ''method'' = Some (JStr ''set_led_color'')
      \<and> (map_of set_led_request ''params'' = None
           \<or> (\<exists>xs. map_of set_led_request ''params'' = Some (JList xs))
           \<or> (\<exists>kvs. map_of set_led_request ''params'' = Some (JDict kvs))
           \<or> map_of set_led_request ''params'' = Some JNull)"
    by (simp add: set_led_request_def)
  have l2: "loads_example bad_json_text
      = Inl (''JSONDecodeError('' @ [CHR 0x22] @ ''Expecting value'' @ [CHR 0x22] @ '')'')"
    by code_simp
  have l3: "loads_example missing_method_text
      = Inr (JDict [(''id'', JInt 0), (''params'', JDict [(''rgb'', JList [JInt 255, JInt 0, JInt 0])])])"
    by code_simp
  have m3: "map_of [(''id'', JInt 0), (''params'', JDict [(''rgb'', JList [JInt 255, JInt 0, JInt 0])])]
      ''method'' = None"
    by simp
  from parse_request_cases [of loads_example set_led_text undefined set_led_request undefined]
    l1 m1
  have "parse_request loads_example set_led_text = Inr set_led_request" by blast
  moreover from parse_request_cases [of loads_example bad_json_text
      "''JSONDecodeError('' @ [CHR 0x22] @ ''Expecting value'' @ [CHR 0x22] @ '')''" undefined undefined] l2
  have "parse_request loads_example bad_json_text
       = Inl (ParseError (''JSONDecodeError('' @ [CHR 0x22] @ ''Expecting value'' @ [CHR 0x22] @ '')''))"
    by blast
  moreover from parse_request_cases [of loads_example missing_method_text undefined
      "[(''id'', JInt 0), (''params'', JDict [(''rgb'', JList [JInt 255, JInt 0, JInt 0])])]" undefined]
    l3 m3
  have "parse_request loads_example missing_method_text = Inl MethodNotSpecified" by blast
  ultimately show ?thesis by blast
qed

text \<open>
  Claim C6 as stated fails on the payload \<^verbatim>\<open>5\<close>: it parses, the parsed value has no key
  \<^verbatim>\<open>method\<close>, and \<^verbatim>\<open>'method' not in 5\<close> raises a \<^verbatim>\<open>TypeError\<close> instead of "method not specified".
\<close>

theorem parse_request_number_counterexample:
  "loads_example ''5'' = Inr (JInt 5)
   \<and> parse_request loads_example ''5'' = Inl (TypeError ''argument is not iterable'')
   \<and> parse_request loads_example ''5'' \<noteq> Inl MethodNotSpecified"
  by code_simp

lemma handle_request_str:
  assumes "dict_get request ''method'' = JStr m"
  shows "handle_request methods request dev =
     (if m = [] then (Inl MethodMissing, dev)
      else case methods m of
             None \<Rightarrow> (Inl MethodNotFound, dev)
           | Some f \<Rightarrow>
               (case (if \<not> truthy (dict_get request ''params'') then JDict []
                      else dict_get request ''params'') of
                  JDict kwargs \<Rightarrow>
                    (case f kwargs dev of
                       (Inl msg, dev') \<Rightarrow> (Inl (HandlerError msg), dev')
                     | (Inr result, dev') \<Rightarrow> (Inr result, dev'))
                | _ \<Rightarrow> (Inl (TypeError ''argument after ** must be a mapping''), dev)))"
  using assms by (simp add: handle_request_def Let_def)

text \<open>
  Claim C7, as amended. For every validated request (one that \<^verbatim>\<open>parse_request\<close> returned)
  whose method is not a key of the method table, \<^verbatim>\<open>handle_request\<close> fails and leaves the
  device untouched, so no handler has run: with "method is not found" when the method
  is a non-empty string, and with "method is missing" when it is the empty string,
  which \<^verbatim>\<open>if not method\<close> catches before the table is looked at.
\<close>

theorem handle_request_unregistered:
  assumes valid: "parse_request loads text = Inr request"
    and unregistered: "\<forall>m. dict_get request ''method'' = JStr m \<longrightarrow> methods m = None"
  shows "\<exists>m. dict_get request ''method'' = JStr m
     \<and> handle_request methods request dev
         = (Inl (if m = [] then MethodMissing else MethodNotFound), dev)"
proof -
  from parse_request_Inr [OF valid] obtain m where "map_of request ''method'' = Some (JStr m)"
    by blast
  then have m: "dict_get request ''method'' = JStr m" by (simp add: dict_get_def)
  with unregistered have "methods m = None" by blast
  with handle_request_str [OF m, of methods dev] m show ?thesis by auto
qed

text \<open>
  The method \<^verbatim>\<open>Get_Power_Status\<close> of the docstring is not in the table: "method is not
  found", and the LED keeps its colour.
\<close>

theorem handle_request_unregistered_witness:
  "parse_request loads_example power_status_text = Inr power_status_request
   \<and> methods_example ''Get_Power_Status'' = None
   \<and> handle_request methods_example power_status_request (JStr ''off'')
       = (Inl MethodNotFound, JStr ''off'')"
proof -
  have v: "parse_request loads_example power_status_text = Inr power_status_request" by code_simp
  have g: "dict_get power_status_request ''method'' = JStr ''Get_Power_Status''" by code_simp
  have n: "methods_example ''Get_Power_Status'' = None" by (simp add: methods_example_def)
  have u: "\<forall>m. dict_get power_status_request ''method'' = JStr m \<longrightarrow> methods_example m = None"
    using g n by simp
  from handle_request_unregistered [OF v u, of "JStr ''off''"] g v n show ?thesis by auto
qed

text \<open>
  Claim C7 as stated fails on the validated request \<^verbatim>\<open>{"method":""}\<close>: the empty method is
  not a key of the table, and the failure is "method is missing", not "method is not found".
\<close>

theorem empty_method_counterexample:
  "parse_request loads_example empty_method_text = Inr [(''method'', JStr [])]
   \<and> methods_example [] = None
   \<and> handle_request methods_example [(''method'', JStr [])] (JStr ''off'')
       = (Inl MethodMissing, JStr ''off'')
   \<and> fst (handle_request methods_example [(''method'', JStr [])] (JStr ''off''))
       \<noteq> Inl MethodNotFound"
  by (simp add: methods_example_def handle_request_def dict_get_def parse_request_def
        loads_example_def empty_method_text_def set_led_text_def power_status_text_def
        list_params_text_def missing_method_text_def)

text \<open>
  Claim C8, as amended. For every validated request whose method is a non-empty
  registered name and whose \<^verbatim>\<open>params\<close> is a dictionary, or absent, or null,
  \<^verbatim>\<open>handle_request\<close> calls the registered handler with the items of the dictionary as
  keyword arguments (none when \<^verbatim>\<open>params\<close> is absent, null or empty) and returns what the
  handler returns, with the device as the handler left it; when the handler raises, the
  failure is a \<open>HandlerError\<close> with the handler's message. When the method is the empty
  string, \<^verbatim>\<open>if not method\<close> fails with "method is missing" before the table is looked at,
  and the handler registered under it does not run.
\<close>

theorem handle_request_registered:
  assumes valid: "parse_request loads text = Inr request"
    and mname: "dict_get request ''method'' = JStr m"
    and registered: "methods m = Some f"
    and pshape: "dict_get request ''params'' = JNull \<or> dict_get request ''params'' = JDict kwargs"
  shows "handle_request methods request dev =
     (if m = [] then (Inl MethodMissing, dev)
      else case f (if dict_get request ''params'' = JNull then [] else kwargs) dev of
             (Inl msg, dev') \<Rightarrow> (Inl (HandlerError msg), dev')
           | (Inr result, dev') \<Rightarrow> (Inr result, dev'))"
proof (cases "m = []")
  case True
  with handle_request_str [OF mname, of methods dev] show ?thesis by simp
next
  case ne: False
  from pshape show ?thesis
  proof
    assume "dict_get request ''params'' = JNull"
    with handle_request_str [OF mname, of methods dev] ne registered show ?thesis by simp
  next
    assume p: "dict_get request ''params'' = JDict kwargs"
    show ?thesis
    proof (cases "kwargs = []")
      case True
      with p handle_request_str [OF mname, of methods dev] ne registered show ?thesis by simp
    next
      case False
      with p handle_request_str [OF mname, of methods dev] ne registered show ?thesis by simp
    qed
  qed
qed

text \<open>
  \<^verbatim>\<open>test_set_led_valid\<close>: the request \<^verbatim>\<open>set_led_color\<close> with \<^verbatim>\<open>{"rgb":[255,0,0]}\<close> calls the
  handler with \<^verbatim>\<open>rgb=[255,0,0]\<close>, which sets the LED and returns \<^verbatim>\<open>{"status": true}\<close>.
\<close>

theorem handle_request_registered_witness:
  "parse_request loads_example set_led_text = Inr set_led_request
   \<and> methods_example ''set_led_color'' = Some set_led_color
   \<and> handle_request methods_example set_led_request (JStr ''off'')
       = (Inr (JDict [(''status'', JBool True)]), JList [JInt 255, JInt 0, JInt 0])"
proof -
  have v: "parse_request loads_example set_led_text = Inr set_led_request" by code_simp
  have g: "dict_get set_led_request ''method'' = JStr ''set_led_color''" by code_simp
  have r: "methods_example ''set_led_color'' = Some set_led_color"
    by (simp add: methods_example_def)
  have p: "dict_get set_led_request ''params'' = JNull
      \<or> dict_get set_led_request ''params'' = JDict [(''rgb'', JList [JInt 255, JInt 0, JInt 0])]"
    by (simp add: dict_get_def set_led_request_def)
  have p': "dict_get set_led_request ''params'' \<noteq> JNull"
    by (simp add: dict_get_def set_led_request_def)
  have h: "set_led_color [(''rgb'', JList [JInt 255, JInt 0, JInt 0])] (JStr ''off'')
      = (Inr (JDict [(''status'', JBool True)]), JList [JInt 255, JInt 0, JInt 0])"
    by (simp add: set_led_color_def)
  from handle_request_registered [of loads_example set_led_text set_led_request
      "''set_led_color''" methods_example set_led_color
      "[(''rgb'', JList [JInt 255, JInt 0, JInt 0])]" "JStr ''off''", OF v g r p] p' h v r
  show ?thesis by simp
qed

text \<open>
  Claim C8 as stated fails on the validated request \<^verbatim>\<open>{"method":""}\<close> with a handler
  registered under the empty name: the handler would return the colour of the LED, and
  \<^verbatim>\<open>handle_request\<close> fails with "method is missing" without calling it.
\<close>

theorem empty_method_registered_counterexample:
  "parse_request loads_example empty_method_text = Inr [(''method'', JStr [])]
   \<and> methods_unnamed [] = Some get_led_color
   \<and> get_led_color [] (JStr ''off'') = (Inr (JStr ''off''), JStr ''off'')
   \<and> handle_request methods_unnamed [(''method'', JStr [])] (JStr ''off'')
       = (Inl MethodMissing, JStr ''off'')"
  by (simp add: methods_unnamed_def get_led_color_def handle_request_def dict_get_def
        parse_request_def loads_example_def empty_method_text_def set_led_text_def
        power_status_text_def list_params_text_def missing_method_text_def)







end
